theory Spec2Isabelle
  imports Main
begin

section \<open>JavaScript strings and values\<close>

text \<open>
  A JavaScript string is a sequence of UTF-16 code units; \<^verbatim>\<open>length\<close>, \<^verbatim>\<open>slice\<close>,
  \<^verbatim>\<open>substring\<close> and the regular expressions without the \<^verbatim>\<open>u\<close> flag all count code
  units. \<open>js\<close> reads an ASCII literal as such a string.
\<close>

type_synonym jsstring = "nat list"

definition js :: "string \<Rightarrow> jsstring" where
  "js s = map of_char s"

text \<open>
  White space as \<^verbatim>\<open>String.prototype.trim\<close> and the class \<^verbatim>\<open>\s\<close> know it (the two sets
  are the same: WhiteSpace and LineTerminator of the language definition), the line
  terminators that \<^verbatim>\<open>.\<close> does not match, and the class \<^verbatim>\<open>\w\<close>.
\<close>

definition isSpace :: "nat \<Rightarrow> bool" where
  "isSpace c \<longleftrightarrow>
     c \<in> set [9, 10, 11, 12, 13, 32, 160, 5760, 8232, 8233, 8239, 8287, 12288, 65279]
     \<or> (8192 \<le> c \<and> c \<le> 8202)"

definition isLineTerminator :: "nat \<Rightarrow> bool" where
  "isLineTerminator c \<longleftrightarrow> c \<in> set [10, 13, 8232, 8233]"

definition isWordChar :: "nat \<Rightarrow> bool" where
  "isWordChar c \<longleftrightarrow>
     (65 \<le> c \<and> c \<le> 90) \<or> (97 \<le> c \<and> c \<le> 122) \<or> (48 \<le> c \<and> c \<le> 57) \<or> c = 95"

text \<open>
  Lower case. \<^verbatim>\<open>String.prototype.toLowerCase\<close> maps the ASCII letters \<^verbatim>\<open>A\<close> to \<^verbatim>\<open>Z\<close> onto
  \<^verbatim>\<open>a\<close> to \<^verbatim>\<open>z\<close> and leaves every other ASCII unit as it is. What a unit outside ASCII
  becomes is a matter of the Unicode tables and of the units around it (a final sigma,
  the two halves of a surrogate pair), and it need not be one unit (U+0130 becomes two).
  That part is a parameter: a casing says what a unit outside ASCII contributes to the
  result, given the units before it and the units after it.
\<close>

type_synonym casing = "jsstring \<Rightarrow> nat \<Rightarrow> jsstring \<Rightarrow> jsstring"

definition lowerUnit :: "nat \<Rightarrow> nat" where
  "lowerUnit c = (if 65 \<le> c \<and> c \<le> 90 then c + 32 else c)"

fun lowerFrom :: "casing \<Rightarrow> jsstring \<Rightarrow> jsstring \<Rightarrow> jsstring" where
  "lowerFrom u before [] = []"
| "lowerFrom u before (c # after) =
     (if c < 128 then [lowerUnit c] else u before c after) @ lowerFrom u (before @ [c]) after"

definition toLowerCase :: "casing \<Rightarrow> jsstring \<Rightarrow> jsstring" where
  "toLowerCase u s = lowerFrom u [] s"

text \<open>
  The casing that leaves every unit outside ASCII as it is; it stands in where a string
  is ASCII and no casing is consulted.
\<close>

definition keepUnit :: casing where
  "keepUnit before c after = [c]"

text \<open>
  The values a function can be handed. Numbers are kept as integers (no claim here
  depends on fractions or NaN); an array and an object both have \<^verbatim>\<open>typeof\<close> \<^verbatim>\<open>object\<close>.
\<close>

datatype jsval =
    JUndefined
  | JNull
  | JBool bool
  | JNum int
  | JStr jsstring
  | JArr "jsval list"
  | JObj "(jsstring \<times> jsval) list"
  | JSymbol
  | JFunction

fun truthy :: "jsval \<Rightarrow> bool" where
  "truthy JUndefined = False"
| "truthy JNull = False"
| "truthy (JBool b) = b"
| "truthy (JNum n) = (n \<noteq> 0)"
| "truthy (JStr s) = (s \<noteq> [])"
| "truthy (JArr _) = True"
| "truthy (JObj _) = True"
| "truthy JSymbol = True"
| "truthy JFunction = True"

fun typeof :: "jsval \<Rightarrow> string" where
  "typeof JUndefined = ''undefined''"
| "typeof JNull = ''object''"
| "typeof (JBool _) = ''boolean''"
| "typeof (JNum _) = ''number''"
| "typeof (JStr _) = ''string''"
| "typeof (JArr _) = ''object''"
| "typeof (JObj _) = ''object''"
| "typeof JSymbol = ''symbol''"
| "typeof JFunction = ''function''"

text \<open>An exception that is thrown, with its message.\<close>

datatype js_exception = TypeError string

text \<open>The string held by a value that has passed a \<^verbatim>\<open>typeof x === 'string'\<close> test.\<close>

definition stringOf :: "jsval \<Rightarrow> jsstring" where
  "stringOf v = (case v of JStr s \<Rightarrow> s | _ \<Rightarrow> [])"

text \<open>
  \<^verbatim>\<open>s.slice(0, e)\<close>: a negative end counts from the end of the string, an end past the
  string stops at it.
\<close>

definition slice0 :: "jsstring \<Rightarrow> int \<Rightarrow> jsstring" where
  "slice0 s e =
     (let len = int (length s);
          k = (if e < 0 then max (len + e) 0 else min e len)
      in take (nat k) s)"

text \<open>\<^verbatim>\<open>s.replace(/c/g, r)\<close> for a pattern that is the single character \<open>c\<close>.\<close>

definition replaceAll :: "nat \<Rightarrow> jsstring \<Rightarrow> jsstring \<Rightarrow> jsstring" where
  "replaceAll c r s = concat (map (\<lambda>x. if x = c then r else [x]) s)"

definition trim :: "jsstring \<Rightarrow> jsstring" where
  "trim s = rev (dropWhile isSpace (rev (dropWhile isSpace s)))"

text \<open>\<^verbatim>\<open>s.replace(/\s+/g, ' ')\<close>: every maximal run of white space becomes one space.\<close>

function collapseSpaces :: "jsstring \<Rightarrow> jsstring" where
  "collapseSpaces [] = []"
| "collapseSpaces (c # cs) =
     (if isSpace c then 32 # collapseSpaces (dropWhile isSpace cs)
      else c # collapseSpaces cs)"
  by pat_completeness auto
termination
proof (relation "measure length")
  show "wf (measure length)" by simp
next
  fix c :: nat and cs :: "nat list"
  have "length (dropWhile isSpace cs) \<le> length cs"
    by (rule length_dropWhile_le)
  then show "(dropWhile isSpace cs, c # cs) \<in> measure length"
    by simp
next
  fix c :: nat and cs :: "nat list"
  show "(cs, c # cs) \<in> measure length"
    by simp
qed

text \<open>\<^verbatim>\<open>s.lastIndexOf(c)\<close> (-1 when \<open>c\<close> does not occur) and \<^verbatim>\<open>s.substring(i)\<close>.\<close>

fun lastIndexFrom :: "nat \<Rightarrow> nat \<Rightarrow> jsstring \<Rightarrow> int \<Rightarrow> int" where
  "lastIndexFrom c i [] found = found"
| "lastIndexFrom c i (x # xs) found =
     lastIndexFrom c (Suc i) xs (if x = c then int i else found)"

definition lastIndexOf :: "nat \<Rightarrow> jsstring \<Rightarrow> int" where
  "lastIndexOf c s = lastIndexFrom c 0 s (- 1)"

definition substringFrom :: "jsstring \<Rightarrow> int \<Rightarrow> jsstring" where
  "substringFrom s i = drop (nat (max i 0)) s"

definition startsWith :: "jsstring \<Rightarrow> jsstring \<Rightarrow> bool" where
  "startsWith s p \<longleftrightarrow> take (length p) s = p"

text \<open>The facts that evaluate a closed term over these definitions.\<close>

lemmas js_eval = js_def isSpace_def isLineTerminator_def isWordChar_def lowerUnit_def
  toLowerCase_def stringOf_def slice0_def replaceAll_def trim_def lastIndexOf_def
  substringFrom_def startsWith_def

subsection \<open>Facts about trimming and collapsing\<close>

lemma collapse_length: "length (collapseSpaces s) \<le> length s"
proof (induction s rule: collapseSpaces.induct)
  case 1
  then show ?case by simp
next
  case (2 c cs)
  have le: "length (dropWhile isSpace cs) \<le> length cs"
    by (rule length_dropWhile_le)
  show ?case
  proof (cases "isSpace c")
    case True
    then have "length (collapseSpaces (dropWhile isSpace cs)) \<le> length (dropWhile isSpace cs)"
      using 2(1) by simp
    with le True show ?thesis by simp
  next
    case False
    with 2(2) show ?thesis by simp
  qed
qed

lemma dropWhile_space_head:
  "dropWhile isSpace s = [] \<or> \<not> isSpace (hd (dropWhile isSpace s))"
  using hd_dropWhile [of isSpace s] by blast

lemma collapse_keeps_head:
  assumes "s = [] \<or> \<not> isSpace (hd s)"
  shows "dropWhile isSpace (collapseSpaces s) = collapseSpaces s"
proof (cases s)
  case Nil
  then show ?thesis by simp
next
  case (Cons c cs)
  with assms have "\<not> isSpace c" by simp
  with Cons show ?thesis by simp
qed

lemma collapse_idem: "collapseSpaces (collapseSpaces s) = collapseSpaces s"
proof (induction s rule: collapseSpaces.induct)
  case 1
  then show ?case by simp
next
  case (2 c cs)
  show ?case
  proof (cases "isSpace c")
    case True
    have sp: "isSpace 32" by (simp add: isSpace_def)
    have keep: "dropWhile isSpace (collapseSpaces (dropWhile isSpace cs))
        = collapseSpaces (dropWhile isSpace cs)"
      by (rule collapse_keeps_head) (rule dropWhile_space_head)
    have ih: "collapseSpaces (collapseSpaces (dropWhile isSpace cs))
        = collapseSpaces (dropWhile isSpace cs)"
      using 2(1) True by simp
    have "collapseSpaces (c # cs) = 32 # collapseSpaces (dropWhile isSpace cs)"
      using True by simp
    moreover have "collapseSpaces (32 # collapseSpaces (dropWhile isSpace cs))
        = 32 # collapseSpaces (dropWhile isSpace (collapseSpaces (dropWhile isSpace cs)))"
      using sp by simp
    ultimately show ?thesis using keep ih by simp
  next
    case False
    with 2 show ?thesis by simp
  qed
qed

lemma dropWhile_keeps_last:
  "s \<noteq> [] \<Longrightarrow> \<not> P (last s) \<Longrightarrow> dropWhile P s \<noteq> [] \<and> last (dropWhile P s) = last s"
  by (induction s) (auto split: if_splits)

lemma collapse_keeps_last:
  "s \<noteq> [] \<Longrightarrow> \<not> isSpace (last s) \<Longrightarrow>
   collapseSpaces s \<noteq> [] \<and> last (collapseSpaces s) = last s"
proof (induction s rule: collapseSpaces.induct)
  case 1
  then show ?case by simp
next
  case (2 c cs)
  show ?case
  proof (cases "isSpace c")
    case True
    with 2(4) have ne: "cs \<noteq> []" by auto
    with 2(4) have nl: "\<not> isSpace (last cs)" by simp
    from dropWhile_keeps_last [of cs isSpace] ne nl
    have d: "dropWhile isSpace cs \<noteq> []" "last (dropWhile isSpace cs) = last cs" by simp_all
    with 2(1) [OF True] nl
    have "collapseSpaces (dropWhile isSpace cs) \<noteq> [] \<and>
          last (collapseSpaces (dropWhile isSpace cs)) = last cs" by simp
    with True ne show ?thesis by simp
  next
    case False
    show ?thesis
    proof (cases cs)
      case Nil
      with False show ?thesis by simp
    next
      case (Cons d ds)
      with 2(4) have "\<not> isSpace (last cs)" by simp
      with 2(2) [OF False] Cons
      have "collapseSpaces cs \<noteq> [] \<and> last (collapseSpaces cs) = last cs"
        by simp
      with False Cons show ?thesis by simp
    qed
  qed
qed

lemma collapse_set: "set (collapseSpaces s) \<subseteq> insert 32 (set s)"
proof (induction s rule: collapseSpaces.induct)
  case 1
  then show ?case by simp
next
  case (2 c cs)
  have "set (dropWhile isSpace cs) \<subseteq> set cs"
    by (rule set_dropWhileD [THEN subsetI])
  with 2 show ?case by (cases "isSpace c") auto
qed

lemma trim_set: "set (trim s) \<subseteq> set s"
proof -
  have "set (dropWhile isSpace (rev (dropWhile isSpace s))) \<subseteq> set (rev (dropWhile isSpace s))"
    by (rule set_dropWhileD [THEN subsetI])
  moreover have "set (dropWhile isSpace s) \<subseteq> set s"
    by (rule set_dropWhileD [THEN subsetI])
  ultimately show ?thesis by (auto simp: trim_def)
qed

lemma trim_length: "length (trim s) \<le> length s"
proof -
  have "length (dropWhile isSpace (rev (dropWhile isSpace s))) \<le> length (rev (dropWhile isSpace s))"
    by (rule length_dropWhile_le)
  moreover have "length (dropWhile isSpace s) \<le> length s"
    by (rule length_dropWhile_le)
  ultimately show ?thesis by (simp add: trim_def)
qed

text \<open>A string is trimmed when it neither starts nor ends with white space.\<close>

definition trimmed :: "jsstring \<Rightarrow> bool" where
  "trimmed s \<longleftrightarrow> s = [] \<or> (\<not> isSpace (hd s) \<and> \<not> isSpace (last s))"

lemma dropWhile_id: "s = [] \<or> \<not> P (hd s) \<Longrightarrow> dropWhile P s = s"
  by (cases s) auto

lemma trimmed_trim_id: "trimmed s \<Longrightarrow> trim s = s"
proof (cases "s = []")
  case True
  then show ?thesis by (simp add: trim_def)
next
  case False
  assume "trimmed s"
  with False have h: "\<not> isSpace (hd s)" and l: "\<not> isSpace (last s)"
    by (simp_all add: trimmed_def)
  have 1: "dropWhile isSpace s = s"
    using h by (simp add: dropWhile_id)
  have "hd (rev s) = last s"
    using False by (simp add: hd_rev)
  then have 2: "dropWhile isSpace (rev s) = rev s"
    using l by (simp add: dropWhile_id)
  show ?thesis by (simp add: trim_def 1 2)
qed

lemma trimmed_trim: "trimmed (trim s)"
proof -
  let ?a = "dropWhile isSpace s"
  let ?b = "dropWhile isSpace (rev ?a)"
  show ?thesis
  proof (cases "?b = []")
    case True
    then show ?thesis by (simp add: trim_def trimmed_def)
  next
    case False
    have hb: "\<not> isSpace (hd ?b)"
      using False hd_dropWhile [of isSpace "rev ?a"] by blast
    then have last_ok: "\<not> isSpace (last (rev ?b))"
      using False by (simp add: last_rev)
    have ane: "?a \<noteq> []"
    proof
      assume "?a = []"
      then have "?b = []" by (simp only: rev.simps dropWhile.simps)
      with False show False by blast
    qed
    then have ha: "\<not> isSpace (hd ?a)"
      using hd_dropWhile [of isSpace s] by blast
    have "last (rev ?a) = hd ?a"
      using ane by (simp add: last_rev)
    with ha ane have "last ?b = hd ?a"
      using dropWhile_keeps_last [of "rev ?a" isSpace] by simp
    then have "hd (rev ?b) = hd ?a"
      using False by (simp add: hd_rev)
    with ha last_ok show ?thesis
      by (simp add: trim_def trimmed_def)
  qed
qed

lemma trimmed_collapse: "trimmed s \<Longrightarrow> trimmed (collapseSpaces s)"
proof (cases s)
  case Nil
  then show ?thesis by (simp add: trimmed_def)
next
  case (Cons c cs)
  assume "trimmed s"
  with Cons have h: "\<not> isSpace c" and l: "\<not> isSpace (last s)"
    by (simp_all add: trimmed_def)
  from Cons l have "collapseSpaces s \<noteq> [] \<and> last (collapseSpaces s) = last s"
    using collapse_keeps_last [of s] by simp
  moreover have "hd (collapseSpaces s) = c"
    using Cons h by simp
  ultimately show ?thesis using h l by (simp add: trimmed_def)
qed

lemma slice0_length: "0 \<le> n \<Longrightarrow> int (length (slice0 s n)) \<le> n"
  by (simp add: slice0_def Let_def)

lemma slice0_all: "int (length s) \<le> n \<Longrightarrow> slice0 s n = s"
  by (simp add: slice0_def Let_def)

subsection \<open>Facts about lower case\<close>

text \<open>An ASCII unit that is not a capital letter is still there in lower case.\<close>

lemma lowerFrom_keeps:
  assumes "c \<in> set s" and "c < 128" and "lowerUnit c = c"
  shows "c \<in> set (lowerFrom u before s)"
  using assms(1)
proof (induction s arbitrary: before)
  case Nil
  then show ?case by simp
next
  case (Cons x xs)
  show ?case
  proof (cases "x = c")
    case True
    with assms(2,3) show ?thesis by simp
  next
    case False
    with Cons.prems have "c \<in> set xs" by simp
    then have "c \<in> set (lowerFrom u (before @ [x]) xs)" by (rule Cons.IH)
    then show ?thesis by simp
  qed
qed

lemma toLowerCase_keeps:
  "c \<in> set s \<Longrightarrow> c < 128 \<Longrightarrow> lowerUnit c = c \<Longrightarrow> c \<in> set (toLowerCase u s)"
  by (simp add: toLowerCase_def lowerFrom_keeps)

lemma toLowerCase_Nil: "toLowerCase u [] = []"
  by (simp add: toLowerCase_def)

section \<open>The frontend sanitizers (src/lib/security.ts)\<close>

text \<open>
  \<^verbatim>\<open>sanitizeHtml\<close>: anything that is not a non-empty string gives the empty string;
  otherwise the six replacements run one after the other, the ampersand first.
\<close>

definition sanitizeHtml :: "jsval \<Rightarrow> jsstring" where
  "sanitizeHtml input =
     (if \<not> truthy input \<or> typeof input \<noteq> ''string'' then []
      else replaceAll 47 (js ''&#x2F;'')
          (replaceAll 39 (js ''&#x27;'')
          (replaceAll 34 (js ''&quot;'')
          (replaceAll 62 (js ''&gt;'')
          (replaceAll 60 (js ''&lt;'')
          (replaceAll 38 (js ''&amp;'') (stringOf input)))))))"

text \<open>The class \<^verbatim>\<open>[<>"'&]\<close> that \<^verbatim>\<open>sanitizeInput\<close> deletes.\<close>

definition isDangerousChar :: "nat \<Rightarrow> bool" where
  "isDangerousChar c \<longleftrightarrow> c \<in> set [60, 62, 34, 39, 38]"

text \<open>
  \<^verbatim>\<open>sanitizeInput(input, maxLength = 1000)\<close>: cut to \<^verbatim>\<open>maxLength\<close>, delete the dangerous
  characters, trim, collapse the runs of white space.
\<close>

definition sanitizeInput :: "jsval \<Rightarrow> int \<Rightarrow> jsstring" where
  "sanitizeInput input maxLength =
     (if \<not> truthy input \<or> typeof input \<noteq> ''string'' then []
      else collapseSpaces (trim
             (filter (\<lambda>c. \<not> isDangerousChar c) (slice0 (stringOf input) maxLength))))"

definition defaultMaxLength :: int where
  "defaultMaxLength = 1000"

subsection \<open>What the sanitizers return\<close>

lemma sanitizeInput_Str:
  "sanitizeInput (JStr s) n =
     (if s = [] then []
      else collapseSpaces (trim (filter (\<lambda>c. \<not> isDangerousChar c) (slice0 s n))))"
  by (simp add: sanitizeInput_def stringOf_def)

text \<open>
  C10. For every input that is not a non-empty string (\<^verbatim>\<open>undefined\<close>, \<^verbatim>\<open>null\<close>, the empty
  string, a boolean, a number, an array, an object, a symbol, a function),
  \<^verbatim>\<open>sanitizeInput\<close> (whatever the length bound) and \<^verbatim>\<open>sanitizeHtml\<close> return the empty
  string: the value is never handed back, and there is no other outcome.
\<close>

theorem sanitizers_reject_non_strings:
  assumes "\<forall>s. input = JStr s \<longrightarrow> s = []"
  shows "sanitizeInput input maxLength = [] \<and> sanitizeHtml input = []"
  using assms by (cases input) (simp_all add: sanitizeInput_def sanitizeHtml_def)

theorem sanitizers_reject_non_strings_witness:
  "sanitizeInput JNull 1000 = [] \<and> sanitizeHtml JNull = [] \<and>
   sanitizeInput JUndefined 1000 = [] \<and> sanitizeHtml JUndefined = [] \<and>
   sanitizeInput (JStr []) 1000 = [] \<and> sanitizeHtml (JStr []) = [] \<and>
   sanitizeInput (JNum 42) 1000 = [] \<and> sanitizeHtml (JNum 42) = [] \<and>
   sanitizeInput (JObj [(js ''a'', JStr (js ''b''))]) 1000 = [] \<and>
   sanitizeHtml (JObj [(js ''a'', JStr (js ''b''))]) = []"
  using sanitizers_reject_non_strings [of JNull 1000]
    sanitizers_reject_non_strings [of JUndefined 1000]
    sanitizers_reject_non_strings [of "JStr []" 1000]
    sanitizers_reject_non_strings [of "JNum 42" 1000]
    sanitizers_reject_non_strings [of "JObj [(js ''a'', JStr (js ''b''))]" 1000]
  by simp

section \<open>The server sanitizer (\<^verbatim>\<open>securityConfig\<close>, server/security/security-middleware.js)\<close>

text \<open>
  \<^verbatim>\<open>securityConfig.sanitizeInput\<close> hands a string to the packages \<^verbatim>\<open>xss\<close> and
  \<^verbatim>\<open>validator\<close>, which are dependencies and not part of the repository.
\<close>

text \<open>
  Modelled from the spec: \<^verbatim>\<open>validator.escape\<close>, the HTML escape of the sanitizer
  (sections 1 and 2), with the entities of the package: it replaces \<^verbatim>\<open>& " ' < > / \ `\<close>
  by HTML entities, the ampersand first.
\<close>

definition validator_escape :: "jsstring \<Rightarrow> jsstring" where
  "validator_escape str =
     replaceAll 96 (js ''&#96;'')
    (replaceAll 92 (js ''&#x5C;'')
    (replaceAll 47 (js ''&#x2F;'')
    (replaceAll 62 (js ''&gt;'')
    (replaceAll 60 (js ''&lt;'')
    (replaceAll 39 (js ''&#x27;'')
    (replaceAll 34 (js ''&quot;'')
    (replaceAll 38 (js ''&amp;'') str)))))))"

text \<open>
  The tag filter \<^verbatim>\<open>xss(data, { whiteList: {}, stripIgnoreTag: true,
  stripIgnoreTagBody: ['script'] })\<close> parses tags and escapes the angle brackets of the
  text around them; a text without \<^verbatim>\<open><\<close> and \<^verbatim>\<open>>\<close> is returned as it is. What the
  package does with a text that has angle brackets is left open: it is the parameter
  \<open>filterTags\<close>.
\<close>

definition xss :: "(jsstring \<Rightarrow> jsstring) \<Rightarrow> jsstring \<Rightarrow> jsstring" where
  "xss filterTags html =
     (if 60 \<in> set html \<or> 62 \<in> set html then filterTags html else html)"

text \<open>
  A string is filtered and escaped; an object or an array (both have \<^verbatim>\<open>typeof\<close>
  \<^verbatim>\<open>object\<close>) has every own property sanitized in place; anything else is returned as
  it is.
\<close>

fun securityConfig_sanitizeInput :: "(jsstring \<Rightarrow> jsstring) \<Rightarrow> jsval \<Rightarrow> jsval" where
  "securityConfig_sanitizeInput filterTags (JStr s) = JStr (validator_escape (xss filterTags s))"
| "securityConfig_sanitizeInput filterTags (JObj kvs) =
     JObj (map (\<lambda>kv. (fst kv, securityConfig_sanitizeInput filterTags (snd kv))) kvs)"
| "securityConfig_sanitizeInput filterTags (JArr vs) =
     JArr (map (securityConfig_sanitizeInput filterTags) vs)"
| "securityConfig_sanitizeInput filterTags v = v"

subsection \<open>Idempotence\<close>

text \<open>
  Whatever the tag filter does, the server sanitizer escapes an ampersand again each time
  it runs.
\<close>

lemma server_sanitizer_escapes_again:
  "securityConfig_sanitizeInput filterTags (JStr (js ''a&b'')) = JStr (js ''a&amp;b'') \<and>
   securityConfig_sanitizeInput filterTags (JStr (js ''a&amp;b'')) = JStr (js ''a&amp;amp;b'')"
  by (simp add: validator_escape_def xss_def js_eval)

text \<open>
  The frontend sanitizer is not idempotent under a negative length bound, which
  \<^verbatim>\<open>slice\<close> counts from the end of the string.
\<close>

lemma sanitizeInput_negative_bound:
  "sanitizeInput (JStr (js ''abc'')) (- 1) = js ''ab'' \<and>
   sanitizeInput (JStr (js ''ab'')) (- 1) = js ''a''"
  by (simp add: sanitizeInput_def isDangerousChar_def js_eval)

text \<open>
  C4, as amended. For every input and every length bound that is not negative (the
  default 1000 among them), applying the frontend \<^verbatim>\<open>sanitizeInput\<close> twice equals applying
  it once.
\<close>

theorem sanitizeInput_idempotent:
  assumes n: "0 \<le> n"
  shows "sanitizeInput (JStr (sanitizeInput v n)) n = sanitizeInput v n"
proof (cases "sanitizeInput v n = []")
  case True
  then show ?thesis by (simp add: sanitizeInput_Str)
next
  case False
  then obtain s where v: "v = JStr s" and s: "s \<noteq> []"
    by (cases v) (auto simp: sanitizeInput_def split: if_splits)
  let ?f = "filter (\<lambda>c. \<not> isDangerousChar c) (slice0 s n)"
  let ?r = "collapseSpaces (trim ?f)"
  have r: "sanitizeInput v n = ?r"
    using v s by (simp add: sanitizeInput_Str)
  have "length ?r \<le> length (trim ?f)" by (rule collapse_length)
  also have "\<dots> \<le> length ?f" by (rule trim_length)
  also have "\<dots> \<le> length (slice0 s n)" by simp
  finally have "int (length ?r) \<le> n"
    using slice0_length [OF n, of s] by linarith
  then have sl: "slice0 ?r n = ?r" by (rule slice0_all)
  have nd32: "\<not> isDangerousChar 32" by (simp add: isDangerousChar_def)
  have "set ?r \<subseteq> insert 32 (set (trim ?f))" by (rule collapse_set)
  also have "\<dots> \<subseteq> insert 32 (set ?f)" using trim_set [of ?f] by auto
  finally have sub: "set ?r \<subseteq> insert 32 (set ?f)" .
  have clean: "\<not> isDangerousChar c" if "c \<in> set ?r" for c
  proof -
    from that sub have "c = 32 \<or> c \<in> set ?f" by blast
    then show ?thesis
    proof
      assume "c = 32"
      with nd32 show ?thesis by blast
    next
      assume "c \<in> set ?f"
      then show ?thesis by simp
    qed
  qed
  have fl: "filter (\<lambda>c. \<not> isDangerousChar c) ?r = ?r"
    by (rule filter_True) (rule ballI, rule clean)
  have "trimmed ?r" by (rule trimmed_collapse) (rule trimmed_trim)
  then have tr: "trim ?r = ?r" by (rule trimmed_trim_id)
  have "sanitizeInput (JStr ?r) n = ?r"
    by (simp add: sanitizeInput_Str sl fl tr collapse_idem)
  with r show ?thesis by simp
qed

theorem sanitizeInput_idempotent_witness:
  "0 \<le> defaultMaxLength \<and>
   sanitizeInput (JStr (js ''  a <b>  c&  '')) defaultMaxLength = js ''a b c'' \<and>
   sanitizeInput (JStr (sanitizeInput (JStr (js ''  a <b>  c&  '')) defaultMaxLength))
     defaultMaxLength = js ''a b c''"
proof -
  have n: "0 \<le> defaultMaxLength" by (simp add: defaultMaxLength_def)
  have v: "sanitizeInput (JStr (js ''  a <b>  c&  '')) defaultMaxLength = js ''a b c''"
    by (simp add: sanitizeInput_def isDangerousChar_def defaultMaxLength_def js_eval)
  from sanitizeInput_idempotent [OF n, of "JStr (js ''  a <b>  c&  '')"] n v
  show ?thesis by simp
qed

text \<open>
  The claim as stated also covers the server sanitizer, which is not idempotent: it turns
  \<^verbatim>\<open>a&b\<close> into \<^verbatim>\<open>a&amp;b\<close> and that into \<^verbatim>\<open>a&amp;amp;b\<close>. The string has no angle
  bracket, so the tag filter (here the identity) is not consulted.
\<close>

theorem server_sanitizer_not_idempotent:
  "securityConfig_sanitizeInput id (securityConfig_sanitizeInput id (JStr (js ''a&b'')))
     \<noteq> securityConfig_sanitizeInput id (JStr (js ''a&b''))"
  by (simp add: validator_escape_def xss_def js_eval)

section \<open>Regular expressions\<close>

subsection \<open>Patterns and their languages\<close>

text \<open>
  The patterns of the repository use literals, character classes, alternation, \<^verbatim>\<open>*\<close>,
  \<^verbatim>\<open>+\<close> and the lazy \<^verbatim>\<open>*?\<close>; no group is referred back to and nothing looks ahead. A
  pattern character is a predicate on code units.
\<close>

datatype rx =
    Nul
  | Eps
  | Chr "nat \<Rightarrow> bool"
  | Seq rx rx
  | Alt rx rx
  | Rep rx
  | Lazy rx

inductive_set star :: "jsstring set \<Rightarrow> jsstring set" for L :: "jsstring set" where
  star_empty: "[] \<in> star L"
| star_more: "u \<in> L \<Longrightarrow> v \<in> star L \<Longrightarrow> u @ v \<in> star L"

fun lang :: "rx \<Rightarrow> jsstring set" where
  "lang Nul = {}"
| "lang Eps = {[]}"
| "lang (Chr P) = {[c] | c. P c}"
| "lang (Seq r s) = {u @ v | u v. u \<in> lang r \<and> v \<in> lang s}"
| "lang (Alt r s) = lang r \<union> lang s"
| "lang (Rep r) = star (lang r)"
| "lang (Lazy r) = star (lang r)"

text \<open>
  A pattern as the source writes it: unanchored, ending in \<^verbatim>\<open>$\<close>, or between \<^verbatim>\<open>^\<close> and
  \<^verbatim>\<open>$\<close> (no pattern has the \<^verbatim>\<open>m\<close> flag, so the anchors are the ends of the string).
\<close>

datatype regexp = Search rx | SearchEnd rx | Whole rx

text \<open>What a pattern means: one of its words occurs in the string, where the anchors allow.\<close>

fun occurs :: "regexp \<Rightarrow> jsstring \<Rightarrow> bool" where
  "occurs (Search r) s \<longleftrightarrow> (\<exists>a u b. s = a @ u @ b \<and> u \<in> lang r)"
| "occurs (SearchEnd r) s \<longleftrightarrow> (\<exists>a u. s = a @ u \<and> u \<in> lang r)"
| "occurs (Whole r) s \<longleftrightarrow> s \<in> lang r"

subsection \<open>\<^verbatim>\<open>RegExp.prototype.test\<close>\<close>

text \<open>
  The backtracking matcher of the language: what is left of the string after each way of
  matching the pattern at its head, in the order in which the ways are tried (the left
  alternative first, a greedy \<^verbatim>\<open>*\<close> with one more round first, a lazy one with no more
  round first; a round that consumes nothing is not taken).
\<close>

function backtrack :: "rx \<Rightarrow> jsstring \<Rightarrow> jsstring list" where
  "backtrack Nul s = []"
| "backtrack Eps s = [s]"
| "backtrack (Chr P) s = (case s of [] \<Rightarrow> [] | c # cs \<Rightarrow> if P c then [cs] else [])"
| "backtrack (Seq a b) s = concat (map (backtrack b) (backtrack a s))"
| "backtrack (Alt a b) s = backtrack a s @ backtrack b s"
| "backtrack (Rep a) s =
     concat (map (\<lambda>t. if length t < length s then backtrack (Rep a) t else []) (backtrack a s))
     @ [s]"
| "backtrack (Lazy a) s =
     s # concat (map (\<lambda>t. if length t < length s then backtrack (Lazy a) t else [])
                   (backtrack a s))"
  by pat_completeness auto
termination
  by (relation "measure size <*lex*> measure length") auto

declare backtrack.simps(6) [simp del]
declare backtrack.simps(7) [simp del]

text \<open>
  The first match from the head of the string onwards: the start index moves to the
  right until the matcher succeeds with a rest that the anchor accepts. The result is
  what is left of the string after the match.
\<close>

fun scan :: "rx \<Rightarrow> (jsstring \<Rightarrow> bool) \<Rightarrow> jsstring \<Rightarrow> jsstring option" where
  "scan r ok [] = (case filter ok (backtrack r []) of [] \<Rightarrow> None | v # _ \<Rightarrow> Some v)"
| "scan r ok (c # cs) =
     (case filter ok (backtrack r (c # cs)) of [] \<Rightarrow> scan r ok cs | v # _ \<Rightarrow> Some v)"

fun exec :: "regexp \<Rightarrow> nat \<Rightarrow> jsstring \<Rightarrow> jsstring option" where
  "exec (Search r) start s = scan r (\<lambda>v. True) (drop start s)"
| "exec (SearchEnd r) start s = scan r (\<lambda>v. v = []) (drop start s)"
| "exec (Whole r) start s =
     (if start = 0
      then (case filter (\<lambda>v. v = []) (backtrack r s) of [] \<Rightarrow> None | v # _ \<Rightarrow> Some v)
      else None)"

text \<open>
  A regular expression object. Under the \<^verbatim>\<open>g\<close> flag \<^verbatim>\<open>test\<close> starts at \<^verbatim>\<open>lastIndex\<close> and
  leaves there the end of the match it found, or 0 when it found none: the answer of an
  object that is kept depends on what it was tested with before. A regular expression
  literal is a new object each time it is evaluated, with \<^verbatim>\<open>lastIndex\<close> 0. The flag
  \<^verbatim>\<open>i\<close> is part of the pattern (see \<open>ichr\<close> below).
\<close>

record regexp_object =
  source :: regexp
  global :: bool
  lastIndex :: nat

definition literal :: "regexp \<Rightarrow> bool \<Rightarrow> regexp_object" where
  "literal p g = \<lparr>source = p, global = g, lastIndex = 0\<rparr>"

definition RegExp_test :: "regexp_object \<Rightarrow> jsstring \<Rightarrow> bool \<times> regexp_object" where
  "RegExp_test re s =
     (let start = (if global re then lastIndex re else 0)
      in case (if start > length s then None else exec (source re) start s) of
           None \<Rightarrow> (False, if global re then re\<lparr>lastIndex := 0\<rparr> else re)
         | Some rest \<Rightarrow>
             (True, if global re then re\<lparr>lastIndex := length s - length rest\<rparr> else re))"

subsection \<open>Deciding a match by derivatives\<close>

text \<open>
  A second matcher, which reads the string once: what is left of a pattern after a code
  unit. It answers as the backtracking matcher does (\<open>fresh_test\<close> below) and is the one
  that evaluates the matchers on given strings.
\<close>

fun nullable :: "rx \<Rightarrow> bool" where
  "nullable Nul = False"
| "nullable Eps = True"
| "nullable (Chr P) = False"
| "nullable (Seq r s) = (nullable r \<and> nullable s)"
| "nullable (Alt r s) = (nullable r \<or> nullable s)"
| "nullable (Rep r) = True"
| "nullable (Lazy r) = True"

fun alt :: "rx \<Rightarrow> rx \<Rightarrow> rx" where
  "alt Nul s = s"
| "alt r Nul = r"
| "alt r s = Alt r s"

fun seq :: "rx \<Rightarrow> rx \<Rightarrow> rx" where
  "seq Nul s = Nul"
| "seq r Nul = Nul"
| "seq Eps s = s"
| "seq r s = Seq r s"

fun deriv :: "nat \<Rightarrow> rx \<Rightarrow> rx" where
  "deriv c Nul = Nul"
| "deriv c Eps = Nul"
| "deriv c (Chr P) = (if P c then Eps else Nul)"
| "deriv c (Seq r s) =
     (if nullable r then alt (seq (deriv c r) s) (deriv c s) else seq (deriv c r) s)"
| "deriv c (Alt r s) = alt (deriv c r) (deriv c s)"
| "deriv c (Rep r) = seq (deriv c r) (Rep r)"
| "deriv c (Lazy r) = seq (deriv c r) (Lazy r)"

fun fullMatch :: "rx \<Rightarrow> jsstring \<Rightarrow> bool" where
  "fullMatch r [] = nullable r"
| "fullMatch r (c # cs) = fullMatch (deriv c r) cs"

fun prefixMatch :: "rx \<Rightarrow> jsstring \<Rightarrow> bool" where
  "prefixMatch r [] = nullable r"
| "prefixMatch r (c # cs) = (nullable r \<or> prefixMatch (deriv c r) cs)"

fun rx_test :: "rx \<Rightarrow> jsstring \<Rightarrow> bool" where
  "rx_test r [] = nullable r"
| "rx_test r (c # cs) = (prefixMatch r (c # cs) \<or> rx_test r cs)"

fun rx_test_end :: "rx \<Rightarrow> jsstring \<Rightarrow> bool" where
  "rx_test_end r [] = nullable r"
| "rx_test_end r (c # cs) = (fullMatch r (c # cs) \<or> rx_test_end r cs)"

fun regexp_test :: "regexp \<Rightarrow> jsstring \<Rightarrow> bool" where
  "regexp_test (Search r) s = rx_test r s"
| "regexp_test (SearchEnd r) s = rx_test_end r s"
| "regexp_test (Whole r) s = fullMatch r s"

subsection \<open>Pattern characters\<close>

text \<open>
  Under the \<^verbatim>\<open>i\<close> flag (and without \<^verbatim>\<open>u\<close>) a pattern letter matches its two ASCII cases
  and nothing else: a code unit outside ASCII is never folded onto an ASCII one.
\<close>

definition chr :: "nat \<Rightarrow> rx" where
  "chr c = Chr (\<lambda>x. x = c)"

definition ichr :: "nat \<Rightarrow> rx" where
  "ichr c = Chr (\<lambda>x. lowerUnit x = lowerUnit c)"

fun iseq :: "jsstring \<Rightarrow> rx" where
  "iseq [] = Eps"
| "iseq (c # cs) = Seq (ichr c) (iseq cs)"

definition ilit :: "string \<Rightarrow> rx" where
  "ilit s = iseq (js s)"

fun oneOf :: "string list \<Rightarrow> rx" where
  "oneOf [] = Nul"
| "oneOf (w # ws) = Alt (ilit w) (oneOf ws)"

definition dot :: rx where
  "dot = Chr (\<lambda>x. \<not> isLineTerminator x)"

definition plus :: "rx \<Rightarrow> rx" where
  "plus r = Seq r (Rep r)"

lemmas rx_eval = chr_def ichr_def ilit_def dot_def plus_def

subsection \<open>The derivatives decide the language\<close>

lemma nullable_lang: "nullable r \<longleftrightarrow> [] \<in> lang r"
  by (induction r) (auto intro: star_empty)

lemma lang_alt: "lang (alt r s) = lang r \<union> lang s"
  by (induction r s rule: alt.induct) simp_all

lemma lang_seq: "lang (seq r s) = lang (Seq r s)"
  by (induction r s rule: seq.induct) auto

lemma lang_SeqI: "u \<in> lang r \<Longrightarrow> v \<in> lang s \<Longrightarrow> u @ v \<in> lang (Seq r s)"
  by auto

lemma star_Cons:
  assumes "x \<in> star L" and "x = c # w"
  shows "\<exists>u v. w = u @ v \<and> c # u \<in> L \<and> v \<in> star L"
  using assms
proof (induction arbitrary: w rule: star.induct)
  case star_empty
  then show ?case by simp
next
  case (star_more u v)
  show ?case
  proof (cases u)
    case Nil
    with star_more show ?thesis by simp
  next
    case (Cons d u')
    with star_more.prems have "d = c" and "w = u' @ v" by simp_all
    with Cons star_more.hyps show ?thesis by blast
  qed
qed

lemma lang_deriv: "lang (deriv c r) = {w. c # w \<in> lang r}"
proof (induction r)
  case (Seq r s)
  have mem: "w \<in> lang (Seq (deriv c r) s) \<union> (if nullable r then lang (deriv c s) else {})
        \<longleftrightarrow> c # w \<in> lang (Seq r s)" for w
  proof
    assume "w \<in> lang (Seq (deriv c r) s) \<union> (if nullable r then lang (deriv c s) else {})"
    then consider (a) u v where "w = u @ v" "c # u \<in> lang r" "v \<in> lang s"
      | (b) "nullable r" "c # w \<in> lang s"
      using Seq by (auto split: if_splits)
    then show "c # w \<in> lang (Seq r s)"
    proof cases
      case a
      from a(2,3) have "(c # u) @ v \<in> lang (Seq r s)" by (rule lang_SeqI)
      with a(1) show ?thesis by simp
    next
      case b
      then have "[] \<in> lang r" by (simp add: nullable_lang)
      from this b(2) have "[] @ (c # w) \<in> lang (Seq r s)" by (rule lang_SeqI)
      then show ?thesis by simp
    qed
  next
    assume "c # w \<in> lang (Seq r s)"
    then obtain u v where uv: "c # w = u @ v" "u \<in> lang r" "v \<in> lang s" by auto
    show "w \<in> lang (Seq (deriv c r) s) \<union> (if nullable r then lang (deriv c s) else {})"
    proof (cases u)
      case Nil
      with uv have "nullable r" "c # w \<in> lang s" by (simp_all add: nullable_lang)
      with Seq show ?thesis by simp
    next
      case (Cons d u')
      with uv have "w = u' @ v" "c # u' \<in> lang r" by simp_all
      with uv(3) Seq show ?thesis by auto
    qed
  qed
  show ?case
  proof (rule set_eqI)
    fix w
    have "w \<in> lang (deriv c (Seq r s)) \<longleftrightarrow>
          w \<in> lang (Seq (deriv c r) s) \<union> (if nullable r then lang (deriv c s) else {})"
      by (simp add: lang_alt lang_seq del: lang.simps)
    also have "\<dots> \<longleftrightarrow> c # w \<in> lang (Seq r s)" by (rule mem)
    finally show "w \<in> lang (deriv c (Seq r s)) \<longleftrightarrow> w \<in> {w. c # w \<in> lang (Seq r s)}"
      by (simp del: lang.simps deriv.simps)
  qed
next
  case (Rep r)
  have mem: "w \<in> lang (Seq (deriv c r) (Rep r)) \<longleftrightarrow> c # w \<in> star (lang r)" for w
  proof
    assume "w \<in> lang (Seq (deriv c r) (Rep r))"
    then obtain u v where "w = u @ v" "c # u \<in> lang r" "v \<in> star (lang r)"
      using Rep by auto
    then show "c # w \<in> star (lang r)"
      using star_more [of "c # u" "lang r" v] by simp
  next
    assume "c # w \<in> star (lang r)"
    from star_Cons [OF this refl] Rep
    show "w \<in> lang (Seq (deriv c r) (Rep r))" by auto
  qed
  show ?case
  proof (rule set_eqI)
    fix w
    have "w \<in> lang (deriv c (Rep r)) \<longleftrightarrow> w \<in> lang (Seq (deriv c r) (Rep r))"
      by (simp add: lang_seq del: lang.simps)
    also have "\<dots> \<longleftrightarrow> c # w \<in> star (lang r)" by (rule mem)
    finally show "w \<in> lang (deriv c (Rep r)) \<longleftrightarrow> w \<in> {w. c # w \<in> lang (Rep r)}"
      by (simp del: deriv.simps)
  qed
next
  case (Lazy r)
  have mem: "w \<in> lang (Seq (deriv c r) (Lazy r)) \<longleftrightarrow> c # w \<in> star (lang r)" for w
  proof
    assume "w \<in> lang (Seq (deriv c r) (Lazy r))"
    then obtain u v where "w = u @ v" "c # u \<in> lang r" "v \<in> star (lang r)"
      using Lazy by auto
    then show "c # w \<in> star (lang r)"
      using star_more [of "c # u" "lang r" v] by simp
  next
    assume "c # w \<in> star (lang r)"
    from star_Cons [OF this refl] Lazy
    show "w \<in> lang (Seq (deriv c r) (Lazy r))" by auto
  qed
  show ?case
  proof (rule set_eqI)
    fix w
    have "w \<in> lang (deriv c (Lazy r)) \<longleftrightarrow> w \<in> lang (Seq (deriv c r) (Lazy r))"
      by (simp add: lang_seq del: lang.simps)
    also have "\<dots> \<longleftrightarrow> c # w \<in> star (lang r)" by (rule mem)
    finally show "w \<in> lang (deriv c (Lazy r)) \<longleftrightarrow> w \<in> {w. c # w \<in> lang (Lazy r)}"
      by (simp del: deriv.simps)
  qed
qed (auto simp: lang_alt)

lemma fullMatch_lang: "fullMatch r s \<longleftrightarrow> s \<in> lang r"
  by (induction s arbitrary: r) (simp_all add: nullable_lang lang_deriv)

lemma prefixMatch_lang: "prefixMatch r s \<longleftrightarrow> (\<exists>u v. s = u @ v \<and> u \<in> lang r)"
proof (induction s arbitrary: r)
  case Nil
  then show ?case by (simp add: nullable_lang)
next
  case (Cons c cs)
  have "(\<exists>u v. c # cs = u @ v \<and> u \<in> lang r) \<longleftrightarrow>
        [] \<in> lang r \<or> (\<exists>u v. cs = u @ v \<and> c # u \<in> lang r)"
    by (auto simp: Cons_eq_append_conv)
  with Cons show ?case by (simp add: nullable_lang lang_deriv)
qed

lemma rx_test_lang: "rx_test r s \<longleftrightarrow> (\<exists>a u b. s = a @ u @ b \<and> u \<in> lang r)"
proof (induction s)
  case Nil
  then show ?case by (simp add: nullable_lang)
next
  case (Cons c cs)
  have "(\<exists>a u b. c # cs = a @ u @ b \<and> u \<in> lang r) \<longleftrightarrow>
        (\<exists>u b. c # cs = u @ b \<and> u \<in> lang r) \<or> (\<exists>a u b. cs = a @ u @ b \<and> u \<in> lang r)"
  proof
    assume "\<exists>a u b. c # cs = a @ u @ b \<and> u \<in> lang r"
    then obtain a u b where *: "c # cs = a @ u @ b" "u \<in> lang r" by blast
    show "(\<exists>u b. c # cs = u @ b \<and> u \<in> lang r) \<or> (\<exists>a u b. cs = a @ u @ b \<and> u \<in> lang r)"
    proof (cases a)
      case Nil
      with * show ?thesis by auto
    next
      case (Cons d a')
      with * have "cs = a' @ u @ b" by simp
      with *(2) show ?thesis by blast
    qed
  next
    assume "(\<exists>u b. c # cs = u @ b \<and> u \<in> lang r) \<or> (\<exists>a u b. cs = a @ u @ b \<and> u \<in> lang r)"
    then show "\<exists>a u b. c # cs = a @ u @ b \<and> u \<in> lang r"
    proof
      assume "\<exists>u b. c # cs = u @ b \<and> u \<in> lang r"
      then obtain u b where "c # cs = [] @ u @ b" "u \<in> lang r" by auto
      then show ?thesis by blast
    next
      assume "\<exists>a u b. cs = a @ u @ b \<and> u \<in> lang r"
      then obtain a u b where "c # cs = (c # a) @ u @ b" "u \<in> lang r" by auto
      then show ?thesis by blast
    qed
  qed
  with Cons show ?case by (simp only: rx_test.simps prefixMatch_lang)
qed

lemma rx_test_end_lang: "rx_test_end r s \<longleftrightarrow> (\<exists>a u. s = a @ u \<and> u \<in> lang r)"
proof (induction s)
  case Nil
  then show ?case by (simp add: nullable_lang)
next
  case (Cons c cs)
  have "(\<exists>a u. c # cs = a @ u \<and> u \<in> lang r) \<longleftrightarrow>
        c # cs \<in> lang r \<or> (\<exists>a u. cs = a @ u \<and> u \<in> lang r)"
    by (auto simp: Cons_eq_append_conv)
  with Cons show ?case by (simp only: rx_test_end.simps fullMatch_lang)
qed

lemma regexp_test_occurs: "regexp_test p s \<longleftrightarrow> occurs p s"
  by (cases p) (simp_all add: rx_test_lang rx_test_end_lang fullMatch_lang)

subsection \<open>The backtracking matcher finds the language\<close>

lemma rep_rests:
  assumes a: "set (backtrack a s) = {v. \<exists>u. s = u @ v \<and> u \<in> lang a}"
    and rec: "\<And>t. t \<in> set (backtrack a s) \<Longrightarrow> length t < length s \<Longrightarrow>
                set (f t) = {v. \<exists>u. t = u @ v \<and> u \<in> star (lang a)}"
  shows "insert s (\<Union>t\<in>set (backtrack a s). if length t < length s then set (f t) else {})
         = {v. \<exists>u. s = u @ v \<and> u \<in> star (lang a)}"
proof (rule set_eqI, rule iffI)
  fix v
  assume "v \<in> insert s (\<Union>t\<in>set (backtrack a s). if length t < length s then set (f t) else {})"
  then consider "v = s"
    | t where "t \<in> set (backtrack a s)" "length t < length s" "v \<in> set (f t)"
    by (auto split: if_splits)
  then show "v \<in> {v. \<exists>u. s = u @ v \<and> u \<in> star (lang a)}"
  proof cases
    case 1
    then have "s = [] @ v" by simp
    then show ?thesis using star_empty by blast
  next
    case 2
    from 2(1) a obtain u1 where u1: "s = u1 @ t" "u1 \<in> lang a" by auto
    from 2 rec obtain u2 where u2: "t = u2 @ v" "u2 \<in> star (lang a)" by auto
    from u1(2) u2(2) have "u1 @ u2 \<in> star (lang a)" by (rule star_more)
    moreover from u1(1) u2(1) have "s = (u1 @ u2) @ v" by simp
    ultimately show ?thesis by blast
  qed
next
  fix v
  assume "v \<in> {v. \<exists>u. s = u @ v \<and> u \<in> star (lang a)}"
  then obtain u where u: "s = u @ v" "u \<in> star (lang a)" by auto
  show "v \<in> insert s (\<Union>t\<in>set (backtrack a s). if length t < length s then set (f t) else {})"
  proof (cases u)
    case Nil
    with u show ?thesis by simp
  next
    case (Cons c w)
    from star_Cons [OF u(2) Cons] obtain u1 u2
      where w: "w = u1 @ u2" "c # u1 \<in> lang a" "u2 \<in> star (lang a)" by blast
    let ?t = "u2 @ v"
    from u(1) Cons w(1) have s: "s = (c # u1) @ ?t" by simp
    with w(2) a have t: "?t \<in> set (backtrack a s)" by blast
    from s have len: "length ?t < length s" by simp
    from rec [OF t len] w(3) have "v \<in> set (f ?t)" by blast
    with t len show ?thesis by auto
  qed
qed

lemma backtrack_rests: "set (backtrack r s) = {v. \<exists>u. s = u @ v \<and> u \<in> lang r}"
proof (induction r s rule: backtrack.induct)
  case (1 s)
  then show ?case by simp
next
  case (2 s)
  then show ?case by simp
next
  case (3 P s)
  then show ?case by (cases s) auto
next
  case (4 a b s)
  have "set (backtrack (Seq a b) s) = (\<Union>t\<in>set (backtrack a s). set (backtrack b t))"
    by simp
  also have "\<dots> = (\<Union>t\<in>{t. \<exists>u. s = u @ t \<and> u \<in> lang a}. {v. \<exists>u. t = u @ v \<and> u \<in> lang b})"
    using 4 by simp
  also have "\<dots> = {v. \<exists>u. s = u @ v \<and> u \<in> lang (Seq a b)}"
  proof (rule set_eqI, rule iffI)
    fix v
    assume "v \<in> (\<Union>t\<in>{t. \<exists>u. s = u @ t \<and> u \<in> lang a}. {v. \<exists>u. t = u @ v \<and> u \<in> lang b})"
    then obtain t u1 u2 where "s = u1 @ t" "u1 \<in> lang a" "t = u2 @ v" "u2 \<in> lang b"
      by auto
    then have "s = (u1 @ u2) @ v" "u1 @ u2 \<in> lang (Seq a b)" by auto
    then show "v \<in> {v. \<exists>u. s = u @ v \<and> u \<in> lang (Seq a b)}" by blast
  next
    fix v
    assume "v \<in> {v. \<exists>u. s = u @ v \<and> u \<in> lang (Seq a b)}"
    then obtain u1 u2 where "s = (u1 @ u2) @ v" "u1 \<in> lang a" "u2 \<in> lang b" by auto
    then have "s = u1 @ (u2 @ v)" "u1 \<in> lang a" "u2 @ v = u2 @ v" "u2 \<in> lang b" by simp_all
    then show "v \<in> (\<Union>t\<in>{t. \<exists>u. s = u @ t \<and> u \<in> lang a}. {v. \<exists>u. t = u @ v \<and> u \<in> lang b})"
      by blast
  qed
  finally show ?case .
next
  case (5 a b s)
  then show ?case by auto
next
  case (6 a s)
  have "set (backtrack (Rep a) s)
      = insert s (\<Union>t\<in>set (backtrack a s).
          if length t < length s then set (backtrack (Rep a) t) else {})"
    by (subst backtrack.simps(6)) (auto split: if_splits)
  also have "\<dots> = {v. \<exists>u. s = u @ v \<and> u \<in> star (lang a)}"
    using 6 by (intro rep_rests) simp_all
  finally show ?case by simp
next
  case (7 a s)
  have "set (backtrack (Lazy a) s)
      = insert s (\<Union>t\<in>set (backtrack a s).
          if length t < length s then set (backtrack (Lazy a) t) else {})"
    by (subst backtrack.simps(7)) (auto split: if_splits)
  also have "\<dots> = {v. \<exists>u. s = u @ v \<and> u \<in> star (lang a)}"
    using 7 by (intro rep_rests) simp_all
  finally show ?case by simp
qed

lemma first_of_filter:
  "(case filter ok xs of [] \<Rightarrow> None | v # _ \<Rightarrow> Some v) \<noteq> None \<longleftrightarrow> (\<exists>v\<in>set xs. ok v)"
  by (cases "filter ok xs") (auto simp: filter_empty_conv dest: filter_eq_ConsD)

lemma scan_finds:
  "scan r ok t \<noteq> None \<longleftrightarrow> (\<exists>a b. t = a @ b \<and> (\<exists>v\<in>set (backtrack r b). ok v))"
proof (induction t)
  case Nil
  show ?case using first_of_filter [of ok "backtrack r []"] by simp
next
  case (Cons c cs)
  let ?here = "\<exists>v\<in>set (backtrack r (c # cs)). ok v"
  have split: "(\<exists>a b. c # cs = a @ b \<and> (\<exists>v\<in>set (backtrack r b). ok v)) \<longleftrightarrow>
        ?here \<or> (\<exists>a b. cs = a @ b \<and> (\<exists>v\<in>set (backtrack r b). ok v))"
    by (auto simp: Cons_eq_append_conv)
  have "scan r ok (c # cs) \<noteq> None \<longleftrightarrow> ?here \<or> scan r ok cs \<noteq> None"
  proof (cases "filter ok (backtrack r (c # cs))")
    case Nil
    then have "\<not> ?here" by (simp add: filter_empty_conv)
    with Nil show ?thesis by simp
  next
    case (Cons v vs)
    then have "v \<in> set (filter ok (backtrack r (c # cs)))" by simp
    then have ?here by auto
    with Cons show ?thesis by simp
  qed
  with Cons.IH split show ?case by simp
qed

lemma exec_occurs: "exec p 0 s \<noteq> None \<longleftrightarrow> occurs p s"
proof (cases p)
  case (Search r)
  have "exec p 0 s \<noteq> None \<longleftrightarrow> (\<exists>a b. s = a @ b \<and> (\<exists>v\<in>set (backtrack r b). True))"
    unfolding Search by (simp only: exec.simps drop_0 scan_finds)
  also have "\<dots> \<longleftrightarrow> (\<exists>a u v. s = a @ u @ v \<and> u \<in> lang r)"
    by (auto simp: backtrack_rests)
  finally show ?thesis unfolding Search by (simp only: occurs.simps)
next
  case (SearchEnd r)
  have "exec p 0 s \<noteq> None \<longleftrightarrow> (\<exists>a b. s = a @ b \<and> (\<exists>v\<in>set (backtrack r b). v = []))"
    unfolding SearchEnd by (simp only: exec.simps drop_0 scan_finds)
  also have "\<dots> \<longleftrightarrow> (\<exists>a u. s = a @ u \<and> u \<in> lang r)"
    by (auto simp: backtrack_rests)
  finally show ?thesis unfolding SearchEnd by (simp only: occurs.simps)
next
  case (Whole r)
  have "exec p 0 s \<noteq> None \<longleftrightarrow> (\<exists>v\<in>set (backtrack r s). v = [])"
    unfolding Whole by (simp only: exec.simps refl if_True first_of_filter)
  also have "\<dots> \<longleftrightarrow> s \<in> lang r"
    by (auto simp: backtrack_rests)
  finally show ?thesis unfolding Whole by (simp only: occurs.simps)
qed

text \<open>
  A new object answers whether the pattern occurs, and the derivatives give the same
  answer.
\<close>

lemma fresh_test_occurs: "fst (RegExp_test (literal p g) s) \<longleftrightarrow> occurs p s"
proof (cases "exec p 0 s")
  case None
  with exec_occurs [of p s] show ?thesis
    by (simp add: RegExp_test_def literal_def)
next
  case (Some rest)
  with exec_occurs [of p s] show ?thesis
    by (simp add: RegExp_test_def literal_def)
qed

lemma fresh_test: "fst (RegExp_test (literal p g) s) = regexp_test p s"
  by (simp only: fresh_test_occurs regexp_test_occurs)

lemma iseq_self: "cs \<in> lang (iseq cs)"
proof (induction cs)
  case Nil
  then show ?case by simp
next
  case (Cons c cs)
  have "[c] \<in> lang (ichr c)" by (simp add: ichr_def)
  from this Cons have "[c] @ cs \<in> lang (Seq (ichr c) (iseq cs))" by (rule lang_SeqI)
  then show ?case by simp
qed

lemma ilit_self: "js w \<in> lang (ilit w)"
  by (simp add: ilit_def iseq_self)

lemma star_of_class: "\<forall>c\<in>set m. P c \<Longrightarrow> m \<in> star (lang (Chr P))"
proof (induction m)
  case Nil
  then show ?case by (simp add: star_empty)
next
  case (Cons c m)
  then have "[c] \<in> lang (Chr P)" and "m \<in> star (lang (Chr P))" by simp_all
  then have "[c] @ m \<in> star (lang (Chr P))" by (rule star_more)
  then show ?case by simp
qed

section \<open>The pattern matchers\<close>

subsection \<open>\<^verbatim>\<open>detectSuspiciousPatterns\<close> (src/lib/security.ts)\<close>

text \<open>The first pattern, \<^verbatim>\<open>/<script[^>]*>.*?<\/script>/gi\<close>.\<close>

definition scriptElement :: rx where
  "scriptElement =
     Seq (ilit ''<script'') (Seq (Rep (Chr (\<lambda>x. x \<noteq> 62)))
       (Seq (ichr 62) (Seq (Lazy dot) (ilit ''</script>''))))"

text \<open>
  The sixteen patterns, in the order of the array. All carry the flags \<^verbatim>\<open>gi\<close>, and the
  array of literals is evaluated in the body of the function, at each call.
\<close>

definition suspiciousPatterns :: "regexp list" where
  "suspiciousPatterns =
    [Search scriptElement,
     Search (ilit ''javascript:''),
     Search (Seq (ilit ''on'') (Seq (plus (Chr isWordChar)) (Seq (Rep (Chr isSpace)) (ichr 61)))),
     Search (ilit ''data:text/html''),
     Search (ilit ''vbscript:''),
     Search (Seq (ilit ''expression'') (Seq (Rep (Chr isSpace)) (ichr 40))),
     Search (Seq (ilit ''url'') (Seq (Rep (Chr isSpace)) (ichr 40))),
     Search (ilit ''@import''),
     Search (Alt (ilit ''../../'') (iseq [46, 46, 92, 46, 46, 92])),
     Search (Seq (ilit ''union'') (Seq (Rep dot) (ilit ''select''))),
     Search (Seq (ilit ''drop'') (Seq (plus (Chr isSpace)) (ilit ''table''))),
     Search (Seq (ilit ''insert'') (Seq (plus (Chr isSpace)) (ilit ''into''))),
     Search (Seq (ilit ''delete'') (Seq (plus (Chr isSpace)) (ilit ''from''))),
     Search (ilit ''<?php''),
     Search (Seq (ilit ''<%'') (Seq (Rep dot) (ilit ''%>''))),
     Search (Seq (ilit ''${'') (Seq (Rep dot) (ilit ''}'')))]"

text \<open>
  The value of the function: whether one of the literals, tested as a new object,
  answers true. (The evaluation with its effects on the objects follows below.)
\<close>

definition detectSuspiciousPatterns :: "jsval \<Rightarrow> bool" where
  "detectSuspiciousPatterns input =
     (if \<not> truthy input \<or> typeof input \<noteq> ''string'' then False
      else list_ex (\<lambda>pattern. fst (RegExp_test (literal pattern True) (stringOf input)))
             suspiciousPatterns)"

subsection \<open>\<^verbatim>\<open>detectSuspiciousFilePatterns\<close> (src/lib/security.ts)\<close>

definition suspiciousFilePatterns :: "regexp list" where
  "suspiciousFilePatterns =
    [Search (Alt (ilit ''../'') (iseq [46, 46, 92])),
     Search (ilit ''<script''),
     Search (ilit ''javascript:''),
     SearchEnd (ilit ''.exe''),
     SearchEnd (ilit ''.bat''),
     SearchEnd (ilit ''.cmd''),
     SearchEnd (ilit ''.scr''),
     SearchEnd (ilit ''.vbs''),
     SearchEnd (ilit ''.js''),
     SearchEnd (ilit ''.php''),
     SearchEnd (ilit ''.asp''),
     SearchEnd (ilit ''.jsp'')]"

definition detectSuspiciousFilePatterns :: "jsval \<Rightarrow> bool" where
  "detectSuspiciousFilePatterns fileName =
     (if \<not> truthy fileName \<or> typeof fileName \<noteq> ''string'' then False
      else list_ex (\<lambda>pattern. fst (RegExp_test (literal pattern True) (stringOf fileName)))
             suspiciousFilePatterns)"

subsection \<open>\<^verbatim>\<open>securityConfig.detectSQLInjection\<close> (server/security/security-middleware.js)\<close>

text \<open>
  The three patterns carry the flag \<^verbatim>\<open>i\<close> only. The middleware calls the function on
  values whose \<^verbatim>\<open>typeof\<close> is \<^verbatim>\<open>string\<close>.
\<close>

definition sqlPatterns :: "regexp list" where
  "sqlPatterns =
    [Search (Alt (ichr 39) (Alt (ilit ''--'') (Alt (ichr 59)
       (Alt (Alt (ichr 124) (ichr 124)) (Alt (ichr 42) (ichr 42)))))),
     Search (oneOf [''union'', ''select'', ''insert'', ''delete'', ''update'', ''drop'',
       ''create'', ''alter'', ''exec'', ''execute'']),
     Search (oneOf [''script'', ''javascript'', ''vbscript'', ''onload'', ''onerror'',
       ''onclick''])]"

definition detectSQLInjection :: "jsstring \<Rightarrow> bool" where
  "detectSQLInjection input =
     list_ex (\<lambda>pattern. fst (RegExp_test (literal pattern False) input)) sqlPatterns"

lemmas matcher_eval = detectSuspiciousPatterns_def suspiciousPatterns_def scriptElement_def
  detectSuspiciousFilePatterns_def suspiciousFilePatterns_def detectSQLInjection_def
  sqlPatterns_def fresh_test

subsection \<open>Script tags\<close>

lemma scriptElement_word:
  assumes "\<forall>c\<in>set m. \<not> isLineTerminator c"
  shows "js ''<script>'' @ m @ js ''</script>'' \<in> lang scriptElement"
proof -
  have 1: "js ''<script'' \<in> lang (ilit ''<script'')" by (rule ilit_self)
  have 2: "[] \<in> lang (Rep (Chr (\<lambda>x. x \<noteq> 62)))" by (simp add: star_empty)
  have 3: "[62] \<in> lang (ichr 62)" by (simp add: ichr_def)
  have "m \<in> star (lang (Chr (\<lambda>x. \<not> isLineTerminator x)))"
    using assms by (rule star_of_class)
  then have 4: "m \<in> lang (Lazy dot)"
    by (simp add: dot_def)
  have 5: "js ''</script>'' \<in> lang (ilit ''</script>'')" by (rule ilit_self)
  have "js ''<script'' @ [] @ [62] @ m @ js ''</script>'' \<in> lang scriptElement"
    unfolding scriptElement_def
    by (intro lang_SeqI 1 2 3 4 5)
  moreover have "js ''<script'' @ [] @ [62] @ m @ js ''</script>''
      = js ''<script>'' @ m @ js ''</script>''"
    by (simp add: js_def)
  ultimately show ?thesis by (simp only:)
qed

text \<open>
  C5, as amended. For every string that holds \<^verbatim>\<open><script>\<close> and, further on with no line
  terminator in between, \<^verbatim>\<open></script>\<close>, \<^verbatim>\<open>detectSuspiciousPatterns\<close> returns true.
\<close>

theorem script_element_detected:
  assumes "\<forall>c\<in>set m. \<not> isLineTerminator c"
  shows "detectSuspiciousPatterns (JStr (a @ js ''<script>'' @ m @ js ''</script>'' @ b))"
proof -
  let ?s = "a @ js ''<script>'' @ m @ js ''</script>'' @ b"
  have w: "js ''<script>'' @ m @ js ''</script>'' \<in> lang scriptElement"
    using assms by (rule scriptElement_word)
  have "?s = a @ (js ''<script>'' @ m @ js ''</script>'') @ b" by simp
  with w have "occurs (Search scriptElement) ?s"
    unfolding occurs.simps by blast
  then have t: "fst (RegExp_test (literal (Search scriptElement) True) ?s)"
    by (simp only: fresh_test_occurs)
  have "Search scriptElement \<in> set suspiciousPatterns"
    by (simp add: suspiciousPatterns_def)
  with t have "list_ex (\<lambda>pattern. fst (RegExp_test (literal pattern True) ?s))
      suspiciousPatterns"
    unfolding list_ex_iff by blast
  moreover have "?s \<noteq> []" by (simp add: js_def)
  ultimately show ?thesis
    by (simp add: detectSuspiciousPatterns_def stringOf_def del: append_assoc)
qed

theorem script_element_detected_witness:
  "list_all (\<lambda>c. \<not> isLineTerminator c) (js ''alert(1)'') \<and>
   detectSuspiciousPatterns (JStr (js ''<p><script>alert(1)</script></p>''))"
proof -
  have h: "\<forall>c\<in>set (js ''alert(1)''). \<not> isLineTerminator c"
    by (simp add: js_def isLineTerminator_def)
  have "js ''<p>'' @ js ''<script>'' @ js ''alert(1)'' @ js ''</script>'' @ js ''</p>''
      = js ''<p><script>alert(1)</script></p>''"
    by (simp add: js_def)
  with script_element_detected [OF h, of "js ''<p>''" "js ''</p>''"] h
  show ?thesis by (simp add: list_all_iff)
qed

text \<open>
  The claim as the specification has it fails: the opening tag alone matches none of the
  sixteen patterns.
\<close>

theorem script_open_tag_undetected:
  "\<not> detectSuspiciousPatterns (JStr (js ''<script>''))"
  by (simp add: matcher_eval js_eval rx_eval)

section \<open>Evaluating the matchers\<close>

subsection \<open>Objects, the console and exceptions\<close>

text \<open>
  What an evaluation can read and change: the regular expression objects that exist (an
  object is referred to by its place in the list) and the lines written to the console.
  An evaluation ends with a value or with an exception that is thrown, and leaves a
  state.
\<close>

record js_state =
  objects :: "regexp_object list"
  console :: "jsstring list"

type_synonym 'a evaluation = "js_state \<Rightarrow> (js_exception + 'a) \<times> js_state"

text \<open>
  A regular expression literal makes a new object each time it is evaluated; the
  elements of an array literal are evaluated from left to right.
\<close>

definition newRegExp :: "regexp \<Rightarrow> bool \<Rightarrow> js_state \<Rightarrow> nat \<times> js_state" where
  "newRegExp p g st = (length (objects st), st\<lparr>objects := objects st @ [literal p g]\<rparr>)"

fun regexpLiterals :: "regexp list \<Rightarrow> bool \<Rightarrow> js_state \<Rightarrow> nat list \<times> js_state" where
  "regexpLiterals [] g st = ([], st)"
| "regexpLiterals (p # ps) g st =
     (case newRegExp p g st of
        (r, st1) \<Rightarrow> (case regexpLiterals ps g st1 of (rs, st2) \<Rightarrow> (r # rs, st2)))"

text \<open>
  \<^verbatim>\<open>pattern.test(s)\<close>: the object answers and is left with its new \<^verbatim>\<open>lastIndex\<close>. A
  reference to no object is \<^verbatim>\<open>undefined\<close>, and calling a method of it throws.
\<close>

definition test :: "nat \<Rightarrow> jsstring \<Rightarrow> bool evaluation" where
  "test r s st =
     (if r < length (objects st)
      then (case RegExp_test (objects st ! r) s of
              (b, re) \<Rightarrow> (Inr b, st\<lparr>objects := (objects st)[r := re]\<rparr>))
      else (Inl (TypeError ''Cannot read properties of undefined''), st))"

text \<open>
  \<^verbatim>\<open>Array.prototype.some\<close>: the callback is called on the elements in order until it
  answers true; an exception from the callback ends the call.
\<close>

fun array_some :: "('a \<Rightarrow> bool evaluation) \<Rightarrow> 'a list \<Rightarrow> bool evaluation" where
  "array_some f [] st = (Inr False, st)"
| "array_some f (x # xs) st =
     (case f x st of
        (Inl e, st1) \<Rightarrow> (Inl e, st1)
      | (Inr True, st1) \<Rightarrow> (Inr True, st1)
      | (Inr False, st1) \<Rightarrow> array_some f xs st1)"

text \<open>
  \<^verbatim>\<open>logSuspiciousActivity\<close> (src/lib/security.ts) is the function of the module that writes:
  \<^verbatim>\<open>console.warn\<close> with the activity. (The line is kept by the activity; the details that
  are printed after it are left out.)
\<close>

definition logSuspiciousActivity :: "jsstring \<Rightarrow> unit evaluation" where
  "logSuspiciousActivity activity st = (Inr (), st\<lparr>console := console st @ [activity]\<rparr>)"

subsection \<open>The three matchers\<close>

text \<open>
  The bodies of the three functions, statement by statement: the guard, the array of
  literals, and \<^verbatim>\<open>some\<close> with \<^verbatim>\<open>pattern => pattern.test(input)\<close>.
\<close>

definition detectSuspiciousPatterns_eval :: "jsval \<Rightarrow> bool evaluation" where
  "detectSuspiciousPatterns_eval input st =
     (if \<not> truthy input \<or> typeof input \<noteq> ''string'' then (Inr False, st)
      else (case regexpLiterals suspiciousPatterns True st of
              (patterns, st1) \<Rightarrow>
                array_some (\<lambda>pattern. test pattern (stringOf input)) patterns st1))"

definition detectSuspiciousFilePatterns_eval :: "jsval \<Rightarrow> bool evaluation" where
  "detectSuspiciousFilePatterns_eval fileName st =
     (if \<not> truthy fileName \<or> typeof fileName \<noteq> ''string'' then (Inr False, st)
      else (case regexpLiterals suspiciousFilePatterns True st of
              (patterns, st1) \<Rightarrow>
                array_some (\<lambda>pattern. test pattern (stringOf fileName)) patterns st1))"

definition detectSQLInjection_eval :: "jsstring \<Rightarrow> bool evaluation" where
  "detectSQLInjection_eval input st =
     (case regexpLiterals sqlPatterns False st of
        (patterns, st1) \<Rightarrow> array_some (\<lambda>pattern. test pattern input) patterns st1)"

text \<open>
  What an evaluation has left alone: the objects that existed are as they were, and
  nothing has been written. (New objects may have been made.)
\<close>

definition unchanged :: "js_state \<Rightarrow> js_state \<Rightarrow> bool" where
  "unchanged st st' \<longleftrightarrow>
     take (length (objects st)) (objects st') = objects st \<and> console st' = console st"

text \<open>
  A matcher that kept its patterns between calls, for comparison: the array is made
  once, and each call tests the same objects.
\<close>

definition keptPatterns_eval :: "nat list \<Rightarrow> jsstring \<Rightarrow> bool evaluation" where
  "keptPatterns_eval patterns input st =
     array_some (\<lambda>pattern. test pattern input) patterns st"

subsection \<open>What an evaluation returns and leaves\<close>

lemma upt_first: "[n ..< n + Suc k] = n # [Suc n ..< Suc n + k]"
  by (simp add: upt_conv_Cons)

lemma regexpLiterals_fresh:
  "regexpLiterals ps g st
     = ([length (objects st) ..< length (objects st) + length ps],
        st\<lparr>objects := objects st @ map (\<lambda>p. literal p g) ps\<rparr>)"
proof (induction ps arbitrary: st)
  case Nil
  then show ?case by simp
next
  case (Cons p ps)
  let ?n = "length (objects st)"
  let ?st1 = "st\<lparr>objects := objects st @ [literal p g]\<rparr>"
  have l: "length (objects ?st1) = Suc ?n" by simp
  have o: "?st1\<lparr>objects := objects ?st1 @ map (\<lambda>p. literal p g) ps\<rparr>
      = st\<lparr>objects := objects st @ map (\<lambda>p. literal p g) (p # ps)\<rparr>"
    by simp
  have "regexpLiterals (p # ps) g st
      = (?n # fst (regexpLiterals ps g ?st1), snd (regexpLiterals ps g ?st1))"
    by (simp add: newRegExp_def split: prod.split)
  also have "\<dots> = (?n # [Suc ?n ..< Suc ?n + length ps],
                    st\<lparr>objects := objects st @ map (\<lambda>p. literal p g) (p # ps)\<rparr>)"
    unfolding Cons.IH [of ?st1] l o by (simp only: fst_conv snd_conv)
  also have "?n # [Suc ?n ..< Suc ?n + length ps] = [?n ..< ?n + length (p # ps)]"
    by (simp only: upt_first length_Cons)
  finally show ?case .
qed

text \<open>
  Objects that have just been made are tested once each, at \<^verbatim>\<open>lastIndex\<close> 0: the answer
  is that of the literals, and only the new objects are touched.
\<close>

lemma some_test_fresh:
  assumes "objects st = old @ map (\<lambda>p. literal p g) ps"
  shows "\<exists>new. array_some (\<lambda>r. test r s) [length old ..< length old + length ps] st
           = (Inr (list_ex (\<lambda>p. fst (RegExp_test (literal p g) s)) ps),
              st\<lparr>objects := old @ new\<rparr>)"
  using assms
proof (induction ps arbitrary: old st)
  case Nil
  then have "st\<lparr>objects := old @ []\<rparr> = st" by simp
  then show ?case by (intro exI [of _ "[]"]) simp
next
  case (Cons p ps)
  let ?n = "length old"
  let ?re = "snd (RegExp_test (literal p g) s)"
  let ?b = "fst (RegExp_test (literal p g) s)"
  let ?st1 = "st\<lparr>objects := (old @ [?re]) @ map (\<lambda>p. literal p g) ps\<rparr>"
  have upt: "[?n ..< ?n + length (p # ps)] = ?n # [length (old @ [?re]) ..<
      length (old @ [?re]) + length ps]"
    using upt_first [of "length old" "length ps"] by simp
  have t: "test ?n s st = (Inr ?b, ?st1)"
    using Cons.prems by (simp add: test_def split: prod.split)
  show ?case
  proof (cases ?b)
    case True
    with t have "array_some (\<lambda>r. test r s) [?n ..< ?n + length (p # ps)] st
        = (Inr True, st\<lparr>objects := old @ (?re # map (\<lambda>p. literal p g) ps)\<rparr>)"
      unfolding upt by simp
    with True show ?thesis
      by (intro exI [of _ "?re # map (\<lambda>p. literal p g) ps"]) simp
  next
    case False
    have "objects ?st1 = (old @ [?re]) @ map (\<lambda>p. literal p g) ps" by simp
    from Cons.IH [OF this] obtain new where
      new: "array_some (\<lambda>r. test r s)
              [length (old @ [?re]) ..< length (old @ [?re]) + length ps] ?st1
            = (Inr (list_ex (\<lambda>p. fst (RegExp_test (literal p g) s)) ps),
               ?st1\<lparr>objects := (old @ [?re]) @ new\<rparr>)"
      by blast
    from t False have "array_some (\<lambda>r. test r s) [?n ..< ?n + length (p # ps)] st
        = array_some (\<lambda>r. test r s)
            [length (old @ [?re]) ..< length (old @ [?re]) + length ps] ?st1"
      unfolding upt by simp
    with new False show ?thesis
      by (intro exI [of _ "?re # new"]) simp
  qed
qed

lemma literals_tested:
  "\<exists>new. (case regexpLiterals ps g st of
            (patterns, st1) \<Rightarrow> array_some (\<lambda>pattern. test pattern s) patterns st1)
         = (Inr (list_ex (\<lambda>p. fst (RegExp_test (literal p g) s)) ps),
            st\<lparr>objects := objects st @ new\<rparr>)"
proof -
  let ?st1 = "st\<lparr>objects := objects st @ map (\<lambda>p. literal p g) ps\<rparr>"
  have "objects ?st1 = objects st @ map (\<lambda>p. literal p g) ps" by simp
  from some_test_fresh [OF this, of s] obtain new where
    "array_some (\<lambda>r. test r s) [length (objects st) ..< length (objects st) + length ps] ?st1
       = (Inr (list_ex (\<lambda>p. fst (RegExp_test (literal p g) s)) ps),
          ?st1\<lparr>objects := objects st @ new\<rparr>)"
    by blast
  then show ?thesis
    by (intro exI [of _ new]) (simp add: regexpLiterals_fresh)
qed

lemma unchanged_refl: "unchanged st st"
  by (simp add: unchanged_def)

lemma unchanged_more: "unchanged st (st\<lparr>objects := objects st @ new\<rparr>)"
  by (simp add: unchanged_def)

lemma unchanged_trans: "unchanged a b \<Longrightarrow> unchanged b c \<Longrightarrow> unchanged a c"
proof -
  assume ab: "unchanged a b" and bc: "unchanged b c"
  from ab have "length (take (length (objects a)) (objects b)) = length (objects a)"
    by (simp only: unchanged_def)
  then have la: "length (objects a) \<le> length (objects b)"
    by (simp add: min_def split: if_splits)
  have "take (length (objects a)) (objects c)
      = take (length (objects a)) (take (length (objects b)) (objects c))"
    using la by (simp add: min.absorb1)
  also have "\<dots> = take (length (objects a)) (objects b)"
    using bc by (simp add: unchanged_def)
  also have "\<dots> = objects a"
    using ab by (simp add: unchanged_def)
  finally show ?thesis
    using ab bc by (simp add: unchanged_def)
qed

lemma detectSuspiciousPatterns_returns:
  "fst (detectSuspiciousPatterns_eval input st) = Inr (detectSuspiciousPatterns input) \<and>
   unchanged st (snd (detectSuspiciousPatterns_eval input st))"
proof (cases "\<not> truthy input \<or> typeof input \<noteq> ''string''")
  case True
  then show ?thesis
    by (simp add: detectSuspiciousPatterns_eval_def detectSuspiciousPatterns_def unchanged_refl)
next
  case False
  from literals_tested [where ps = suspiciousPatterns and g = True and st = st and s = "stringOf input"] obtain new where
    "(case regexpLiterals suspiciousPatterns True st of
        (patterns, st1) \<Rightarrow> array_some (\<lambda>pattern. test pattern (stringOf input)) patterns st1)
     = (Inr (list_ex (\<lambda>p. fst (RegExp_test (literal p True) (stringOf input)))
               suspiciousPatterns),
        st\<lparr>objects := objects st @ new\<rparr>)"
    by blast
  with False show ?thesis
    by (simp add: detectSuspiciousPatterns_eval_def detectSuspiciousPatterns_def unchanged_more)
qed

lemma detectSuspiciousFilePatterns_returns:
  "fst (detectSuspiciousFilePatterns_eval input st)
     = Inr (detectSuspiciousFilePatterns input) \<and>
   unchanged st (snd (detectSuspiciousFilePatterns_eval input st))"
proof (cases "\<not> truthy input \<or> typeof input \<noteq> ''string''")
  case True
  then show ?thesis
    by (simp add: detectSuspiciousFilePatterns_eval_def detectSuspiciousFilePatterns_def
        unchanged_refl)
next
  case False
  from literals_tested [where ps = suspiciousFilePatterns and g = True and st = st and s = "stringOf input"] obtain new where
    "(case regexpLiterals suspiciousFilePatterns True st of
        (patterns, st1) \<Rightarrow> array_some (\<lambda>pattern. test pattern (stringOf input)) patterns st1)
     = (Inr (list_ex (\<lambda>p. fst (RegExp_test (literal p True) (stringOf input)))
               suspiciousFilePatterns),
        st\<lparr>objects := objects st @ new\<rparr>)"
    by blast
  with False show ?thesis
    by (simp add: detectSuspiciousFilePatterns_eval_def detectSuspiciousFilePatterns_def
        unchanged_more)
qed

lemma detectSQLInjection_returns:
  "fst (detectSQLInjection_eval input st) = Inr (detectSQLInjection input) \<and>
   unchanged st (snd (detectSQLInjection_eval input st))"
proof -
  from literals_tested [where ps = sqlPatterns and g = False and st = st and s = input] obtain new where
    "(case regexpLiterals sqlPatterns False st of
        (patterns, st1) \<Rightarrow> array_some (\<lambda>pattern. test pattern input) patterns st1)
     = (Inr (list_ex (\<lambda>p. fst (RegExp_test (literal p False) input)) sqlPatterns),
        st\<lparr>objects := objects st @ new\<rparr>)"
    by blast
  then show ?thesis
    by (simp add: detectSQLInjection_eval_def detectSQLInjection_def unchanged_more)
qed

subsection \<open>The matchers are pure and total\<close>

text \<open>
  The state matters to a test: an object with the \<^verbatim>\<open>g\<close> flag that is kept answers
  differently the second time, because the first \<^verbatim>\<open>test\<close> leaves \<^verbatim>\<open>lastIndex\<close> at the end
  of its match and the second one starts there. A matcher that made its array once and
  kept it would return true and then false on the same string.
\<close>

lemma kept_patterns_answer_differently:
  "fst (keptPatterns_eval [0] (js ''on'')
          \<lparr>objects = [literal (Search (ilit ''on'')) True], console = []\<rparr>) = Inr True \<and>
   fst (keptPatterns_eval [0] (js ''on'')
          (snd (keptPatterns_eval [0] (js ''on'')
                  \<lparr>objects = [literal (Search (ilit ''on'')) True], console = []\<rparr>)))
     = Inr False"
  by (simp add: keptPatterns_eval_def test_def RegExp_test_def literal_def js_eval rx_eval)

text \<open>And a function that writes does not leave the state as it was.\<close>

lemma logSuspiciousActivity_writes:
  "\<not> unchanged st (snd (logSuspiciousActivity activity st))"
  by (simp add: logSuspiciousActivity_def unchanged_def)

text \<open>
  C9. Evaluate a matcher on an input in any state, and then once more on the same input
  in the state that the first evaluation has left. Both evaluations end with a value
  and throw nothing; the value is the same both times, and it is the value of a
  function of the input alone, whatever the state was. After the two evaluations the
  objects that existed before are as they were and nothing has been written to the
  console. This holds for \<^verbatim>\<open>detectSuspiciousPatterns\<close> and
  \<^verbatim>\<open>detectSuspiciousFilePatterns\<close> on every value (a string or not) and for
  \<^verbatim>\<open>detectSQLInjection\<close> on every string.
\<close>

theorem matchers_pure_total:
  "fst (detectSuspiciousPatterns_eval v st) = Inr (detectSuspiciousPatterns v) \<and>
   fst (detectSuspiciousPatterns_eval v (snd (detectSuspiciousPatterns_eval v st)))
     = Inr (detectSuspiciousPatterns v) \<and>
   unchanged st (snd (detectSuspiciousPatterns_eval v (snd (detectSuspiciousPatterns_eval v st)))) \<and>
   fst (detectSuspiciousFilePatterns_eval v st) = Inr (detectSuspiciousFilePatterns v) \<and>
   fst (detectSuspiciousFilePatterns_eval v (snd (detectSuspiciousFilePatterns_eval v st)))
     = Inr (detectSuspiciousFilePatterns v) \<and>
   unchanged st
     (snd (detectSuspiciousFilePatterns_eval v (snd (detectSuspiciousFilePatterns_eval v st)))) \<and>
   fst (detectSQLInjection_eval s st) = Inr (detectSQLInjection s) \<and>
   fst (detectSQLInjection_eval s (snd (detectSQLInjection_eval s st)))
     = Inr (detectSQLInjection s) \<and>
   unchanged st (snd (detectSQLInjection_eval s (snd (detectSQLInjection_eval s st))))"
proof -
  let ?a = "snd (detectSuspiciousPatterns_eval v st)"
  let ?b = "snd (detectSuspiciousFilePatterns_eval v st)"
  let ?c = "snd (detectSQLInjection_eval s st)"
  note a1 = detectSuspiciousPatterns_returns [of v st]
  note a2 = detectSuspiciousPatterns_returns [of v ?a]
  note b1 = detectSuspiciousFilePatterns_returns [of v st]
  note b2 = detectSuspiciousFilePatterns_returns [of v ?b]
  note c1 = detectSQLInjection_returns [of s st]
  note c2 = detectSQLInjection_returns [of s ?c]
  have a: "unchanged st (snd (detectSuspiciousPatterns_eval v ?a))"
    using a1 a2 by (blast intro: unchanged_trans)
  have b: "unchanged st (snd (detectSuspiciousFilePatterns_eval v ?b))"
    using b1 b2 by (blast intro: unchanged_trans)
  have c: "unchanged st (snd (detectSQLInjection_eval s ?c))"
    using c1 c2 by (blast intro: unchanged_trans)
  from a1 a2 a b1 b2 b c1 c2 c show ?thesis by blast
qed

theorem matchers_pure_total_witness:
  "fst (detectSuspiciousPatterns_eval (JStr (js ''javascript:''))
          \<lparr>objects = [literal (Search (ilit ''on'')) True], console = [js ''ready'']\<rparr>)
     = Inr True \<and>
   fst (detectSuspiciousPatterns_eval (JStr (js ''javascript:''))
          (snd (detectSuspiciousPatterns_eval (JStr (js ''javascript:''))
             \<lparr>objects = [literal (Search (ilit ''on'')) True], console = [js ''ready'']\<rparr>)))
     = Inr True \<and>
   fst (detectSuspiciousFilePatterns_eval (JStr (js ''report.pdf''))
          \<lparr>objects = [literal (Search (ilit ''on'')) True], console = [js ''ready'']\<rparr>)
     = Inr False \<and>
   fst (detectSQLInjection_eval (js ''1 UNION SELECT'')
          (snd (detectSQLInjection_eval (js ''1 UNION SELECT'')
             \<lparr>objects = [literal (Search (ilit ''on'')) True], console = [js ''ready'']\<rparr>)))
     = Inr True"
proof -
  have 1: "detectSuspiciousPatterns (JStr (js ''javascript:''))"
    by (simp add: matcher_eval js_eval rx_eval)
  have 2: "\<not> detectSuspiciousFilePatterns (JStr (js ''report.pdf''))"
    by (simp add: matcher_eval js_eval rx_eval)
  have 3: "detectSQLInjection (js ''1 UNION SELECT'')"
    by (simp add: matcher_eval js_eval rx_eval)
  from matchers_pure_total [of "JStr (js ''javascript:'')"
      "\<lparr>objects = [literal (Search (ilit ''on'')) True], console = [js ''ready'']\<rparr>"
      "js ''1 UNION SELECT''"]
    matchers_pure_total [of "JStr (js ''report.pdf'')"
      "\<lparr>objects = [literal (Search (ilit ''on'')) True], console = [js ''ready'']\<rparr>"
      "js ''1 UNION SELECT''"]
    1 2 3
  show ?thesis by (simp only: simp_thms)
qed

section \<open>File uploads\<close>

subsection \<open>\<^verbatim>\<open>validators.file.upload\<close> (server/security/validators.js)\<close>

text \<open>
  The file object that multer attaches to the request: the name and MIME type the client
  declared, the size in bytes (\<^verbatim>\<open>size\<close>), and the name under which the file was stored in the
  uploads directory.
\<close>

record upload_file =
  originalname :: jsstring
  mimetype :: jsstring
  file_size :: nat
  filename :: jsstring

text \<open>The error messages of the validator, by what they say.\<close>

datatype file_error =
    NoFile
  | TooLarge
  | BadType
  | BadName
  | SuspiciousExtension
  | BadChars

datatype validation = Valid | Invalid file_error

definition allowedMimeTypes :: "jsstring list" where
  "allowedMimeTypes = map js
    [''image/jpeg'', ''image/jpg'', ''image/png'', ''image/gif'', ''image/bmp'',
     ''image/webp'', ''image/svg+xml'', ''image/tiff'', ''image/x-icon'',
     ''application/pdf'',
     ''application/msword'',
     ''application/vnd.openxmlformats-officedocument.wordprocessingml.document'',
     ''text/plain'', ''text/rtf'',
     ''application/vnd.oasis.opendocument.text'',
     ''application/vnd.ms-excel'',
     ''application/vnd.openxmlformats-officedocument.spreadsheetml.sheet'',
     ''application/vnd.oasis.opendocument.spreadsheet'',
     ''text/csv'',
     ''application/vnd.ms-powerpoint'',
     ''application/vnd.openxmlformats-officedocument.presentationml.presentation'',
     ''application/vnd.oasis.opendocument.presentation'',
     ''application/zip'', ''application/x-rar-compressed'', ''application/x-7z-compressed'',
     ''application/x-tar'', ''application/gzip'']"

definition allowedExtensions :: "jsstring list" where
  "allowedExtensions = map js
    [''.jpg'', ''.jpeg'', ''.png'', ''.gif'', ''.bmp'', ''.webp'', ''.svg'', ''.tiff'', ''.ico'',
     ''.pdf'', ''.doc'', ''.docx'', ''.txt'', ''.rtf'', ''.odt'',
     ''.xls'', ''.xlsx'', ''.ods'', ''.csv'',
     ''.ppt'', ''.pptx'', ''.odp'',
     ''.zip'', ''.rar'', ''.7z'', ''.tar'', ''.gz'']"

definition suspiciousExtensions :: "jsstring list" where
  "suspiciousExtensions = map js
    [''.exe'', ''.bat'', ''.cmd'', ''.scr'', ''.pif'', ''.com'', ''.vbs'', ''.jar'',
     ''.php'', ''.asp'', ''.jsp'']"

text \<open>The class \<^verbatim>\<open>[a-zA-Z0-9._\-\s()]\<close> and the pattern \<^verbatim>\<open>/^[a-zA-Z0-9._\-\s()]+$/\<close>.\<close>

definition isFileNameChar :: "nat \<Rightarrow> bool" where
  "isFileNameChar c \<longleftrightarrow>
     (97 \<le> c \<and> c \<le> 122) \<or> (65 \<le> c \<and> c \<le> 90) \<or> (48 \<le> c \<and> c \<le> 57) \<or>
     c = 46 \<or> c = 95 \<or> c = 45 \<or> isSpace c \<or> c = 40 \<or> c = 41"

definition fileNamePattern :: regexp where
  "fileNamePattern = Whole (plus (Chr isFileNameChar))"

text \<open>
  \<^verbatim>\<open>file.originalname.toLowerCase().substring(file.originalname.lastIndexOf('.'))\<close>:
  the index is taken in the name as declared, the substring in its lower case (which
  is longer than the name when a unit outside ASCII becomes several).
\<close>

definition fileExtension :: "casing \<Rightarrow> jsstring \<Rightarrow> jsstring" where
  "fileExtension u name = substringFrom (toLowerCase u name) (lastIndexOf 46 name)"

definition maxSize :: nat where
  "maxSize = 10 * 1024 * 1024"

text \<open>The validator; \<open>u\<close> is the casing of \<^verbatim>\<open>toLowerCase\<close>.\<close>

definition validators_file_upload :: "casing \<Rightarrow> upload_file option \<Rightarrow> validation" where
  "validators_file_upload u file =
     (case file of
        None \<Rightarrow> Invalid NoFile
      | Some f \<Rightarrow>
          if file_size f > maxSize then Invalid TooLarge
          else if mimetype f \<notin> set allowedMimeTypes
                  \<and> fileExtension u (originalname f) \<notin> set allowedExtensions
            then Invalid BadType
          else if originalname f = [] \<or> length (originalname f) > 255 then Invalid BadName
          else if fileExtension u (originalname f) \<in> set suspiciousExtensions
            then Invalid SuspiciousExtension
          else if \<not> fst (RegExp_test (literal fileNamePattern False) (originalname f))
            then Invalid BadChars
          else Valid)"

text \<open>
  The members of the object \<^verbatim>\<open>validators.file\<close>: \<^verbatim>\<open>upload\<close> is the only one.
\<close>

definition validators_file :: "casing \<Rightarrow> string \<rightharpoonup> (upload_file option \<Rightarrow> validation)" where
  "validators_file u = [''upload'' \<mapsto> validators_file_upload u]"

subsection \<open>The handler of \<^verbatim>\<open>POST /api/upload\<close> (server/index.js)\<close>

text \<open>
  Calling a member of an object: a member that the object does not have is
  \<^verbatim>\<open>undefined\<close>, and calling it throws a \<^verbatim>\<open>TypeError\<close>.
\<close>

definition callMember :: "(string \<rightharpoonup> ('a \<Rightarrow> 'b)) \<Rightarrow> string \<Rightarrow> 'a \<Rightarrow> js_exception + 'b" where
  "callMember obj name arg =
     (case obj name of
        None \<Rightarrow> Inl (TypeError (name @ '' is not a function''))
      | Some f \<Rightarrow> Inr (f arg))"

text \<open>
  The handler runs after \<^verbatim>\<open>upload.single('file')\<close> has stored the file. The uploads
  directory is the set of the names in it. \<^verbatim>\<open>fs.unlinkSync\<close> sits in a \<^verbatim>\<open>try\<close> of its
  own whose \<^verbatim>\<open>catch\<close> only logs, so a name that is not there leaves the directory as
  it is. The outer \<^verbatim>\<open>catch\<close> answers 500.
\<close>

datatype upload_reply =
    Uploaded upload_file
  | NoFileSelected (status: nat)
  | Rejected (status: nat) file_error
  | UploadFailed (status: nat)

definition unlinkSync :: "jsstring \<Rightarrow> jsstring set \<Rightarrow> jsstring set" where
  "unlinkSync name uploads = uploads - {name}"

definition uploadHandler ::
    "casing \<Rightarrow> upload_file option \<Rightarrow> jsstring set \<Rightarrow> upload_reply \<times> jsstring set" where
  "uploadHandler u file uploads =
     (case file of
        None \<Rightarrow> (NoFileSelected 400, uploads)
      | Some f \<Rightarrow>
          (case callMember (validators_file u) ''validateFile'' (Some f) of
             Inl error \<Rightarrow> (UploadFailed 500, uploads)
           | Inr Valid \<Rightarrow> (Uploaded f, uploads)
           | Inr (Invalid err) \<Rightarrow> (Rejected 400 err, unlinkSync (filename f) uploads)))"

subsection \<open>The disk storage of multer (server/index.js)\<close>

text \<open>
  \<^verbatim>\<open>path.extname\<close> of Node, in its POSIX form: the extension of the last component of a
  path, from the last dot of the component on. Slashes at the end of the path do not
  count. The extension is empty when the component has no dot, when its only dot is its
  first unit, and when the component is \<^verbatim>\<open>..\<close>.
\<close>

definition basename_of :: "jsstring \<Rightarrow> jsstring" where
  "basename_of p = rev (takeWhile (\<lambda>c. c \<noteq> 47) (dropWhile (\<lambda>c. c = 47) (rev p)))"

definition extname :: "jsstring \<Rightarrow> jsstring" where
  "extname p =
     (let b = basename_of p;
          e = rev (takeWhile (\<lambda>c. c \<noteq> 46) (rev b))
      in if 46 \<notin> set b \<or> length e + 1 = length b \<or> b = [46, 46] then [] else 46 # e)"

text \<open>
  The two callbacks that the repository hands to multer, and the errors they answer
  with, by what they say. \<^verbatim>\<open>upload.single('file')\<close> asks \<^verbatim>\<open>fileFilter\<close> first and then, for
  a file that the filter lets through, asks \<^verbatim>\<open>storage.filename\<close> for the name under which
  to store it; an error from either ends the upload, and nothing is stored. The allow-list
  of extensions is written out in both callbacks and in \<^verbatim>\<open>validators.file.upload\<close>, each
  time with the same twenty-seven entries. \<^verbatim>\<open>safeFileName\<close> is the random token of
  \<^verbatim>\<open>cryptoUtils.generateSecureToken(16)\<close>.
\<close>

datatype multer_error = FileTypeNotAllowed | MimeTypeNotAllowed

definition storage_filename :: "casing \<Rightarrow> jsstring \<Rightarrow> upload_file \<Rightarrow> multer_error + jsstring" where
  "storage_filename u safeFileName file =
     (let ext = toLowerCase u (extname (originalname file))
      in if ext \<notin> set allowedExtensions then Inl FileTypeNotAllowed
         else Inr (safeFileName @ ext))"

definition fileFilter :: "casing \<Rightarrow> upload_file \<Rightarrow> multer_error + bool" where
  "fileFilter u file =
     (let ext = toLowerCase u (extname (originalname file))
      in if mimetype file \<in> set allowedMimeTypes \<or> ext \<in> set allowedExtensions then Inr True
         else Inl MimeTypeNotAllowed)"

subsection \<open>The file chooser of the frontend (src/components/tasks/TaskFileUpload.tsx)\<close>

text \<open>
  The \<^verbatim>\<open>File\<close> of the browser: its name, the MIME type the browser reports for it (empty
  when it knows none) and its size in bytes.
\<close>

record browser_file =
  file_name :: jsstring
  file_type :: jsstring
  file_bytes :: nat

definition allowedFileTypes :: "jsstring list" where
  "allowedFileTypes = map js
    [''image/jpeg'', ''image/jpg'', ''image/png'', ''image/gif'', ''image/webp'',
     ''image/bmp'', ''image/tiff'',
     ''application/pdf'',
     ''application/msword'',
     ''application/vnd.openxmlformats-officedocument.wordprocessingml.document'',
     ''application/vnd.ms-excel'',
     ''application/vnd.openxmlformats-officedocument.spreadsheetml.sheet'',
     ''application/vnd.ms-powerpoint'',
     ''application/vnd.openxmlformats-officedocument.presentationml.presentation'',
     ''text/plain'', ''text/csv'',
     ''application/zip'', ''application/x-zip-compressed'',
     ''application/rar'', ''application/x-rar-compressed'',
     ''application/rtf'', ''application/json'', ''text/xml'', ''application/xml'']"

definition chooserExtensions :: "jsstring list" where
  "chooserExtensions = map js
    [''.jpg'', ''.jpeg'', ''.png'', ''.gif'', ''.webp'', ''.bmp'', ''.tiff'',
     ''.pdf'', ''.doc'', ''.docx'', ''.xls'', ''.xlsx'', ''.ppt'', ''.pptx'',
     ''.txt'', ''.csv'', ''.rtf'', ''.json'', ''.xml'',
     ''.zip'', ''.rar'']"

text \<open>
  \<^verbatim>\<open>handleFileChange\<close>, by what it does with the chosen file: one of three error toasts
  (for the third the name is logged as suspicious first), or \<^verbatim>\<open>setSelectedFile(file)\<close>.
  The extension is \<^verbatim>\<open>'.' + file.name.split('.').pop()?.toLowerCase()\<close>, and a file is
  of a valid type when its MIME type is allowed or, failing that, its extension is.
\<close>

datatype chosen = InvalidType | TooBig | SuspiciousName | Selected

definition handleFileChange :: "casing \<Rightarrow> browser_file \<Rightarrow> chosen" where
  "handleFileChange u file =
     (let ext = 46 # toLowerCase u (rev (takeWhile (\<lambda>c. c \<noteq> 46) (rev (file_name file))));
          isValidFile =
            (if file_type file = [] then ext \<in> set chooserExtensions
             else file_type file \<in> set allowedFileTypes \<or> ext \<in> set chooserExtensions)
      in if \<not> isValidFile then InvalidType
         else if file_bytes file > 10 * 1024 * 1024 then TooBig
         else if detectSuspiciousFilePatterns (JStr (file_name file)) then SuspiciousName
         else Selected)"

lemmas upload_eval = allowedMimeTypes_def allowedExtensions_def suspiciousExtensions_def
  isFileNameChar_def fileNamePattern_def fileExtension_def maxSize_def
  validators_file_upload_def fresh_test

subsection \<open>Dangerous extensions\<close>

text \<open>
  The deny-list as the specification has it, to be compared with what the code refuses.
\<close>

definition spec_denyList :: "jsstring list" where
  "spec_denyList = map js
    [''.exe'', ''.bat'', ''.cmd'', ''.scr'', ''.pif'', ''.com'', ''.vbs'', ''.jar'',
     ''.php'', ''.asp'', ''.jsp'', ''.js'']"

text \<open>
  The deny-list of \<^verbatim>\<open>validators.file.upload\<close> has eleven of the twelve (no \<^verbatim>\<open>.js\<close>), the
  patterns of \<^verbatim>\<open>detectSuspiciousFilePatterns\<close> cover nine (no \<^verbatim>\<open>.pif\<close>, \<^verbatim>\<open>.com\<close>, \<^verbatim>\<open>.jar\<close>):
  each refuses what the other lets through.
\<close>

lemma server_refuses_pif:
  "validators_file_upload u
     (Some \<lparr>originalname = js ''a.PIF'', mimetype = js ''text/plain'', file_size = 1,
            filename = js ''0a1b.txt''\<rparr>) = Invalid SuspiciousExtension"
  by (simp add: upload_eval js_eval rx_eval)

lemma frontend_refuses_js:
  "detectSuspiciousFilePatterns (JStr (js ''a.JS''))"
  by (simp add: matcher_eval js_eval rx_eval)

text \<open>
  The file chooser asks the matcher only about a file whose MIME type or extension is
  allowed; a file \<^verbatim>\<open>a.pif\<close> that the browser reports as \<^verbatim>\<open>text/plain\<close> is selected.
\<close>

lemma chooser_selects_pif:
  "handleFileChange u \<lparr>file_name = js ''a.pif'', file_type = js ''text/plain'', file_bytes = 1\<rparr>
     = Selected"
  by (simp add: handleFileChange_def allowedFileTypes_def chooserExtensions_def Let_def
      matcher_eval js_eval rx_eval)

text \<open>The extension of a name that ends in a dot and units that are neither dots nor slashes.\<close>

lemma basename_final:
  assumes "46 \<notin> set ext" and "47 \<notin> set ext"
  shows "basename_of (stem @ 46 # ext)
           = rev (takeWhile (\<lambda>c. c \<noteq> 47) (rev stem)) @ 46 # ext"
proof -
  have r: "rev (stem @ 46 # ext) = rev ext @ 46 # rev stem" by simp
  have "rev ext @ 46 # rev stem = [] \<or> \<not> (hd (rev ext @ 46 # rev stem) = 47)"
    using assms(2) by (cases "rev ext") (auto simp: hd_append)
  then have d: "dropWhile (\<lambda>c. c = 47) (rev ext @ 46 # rev stem) = rev ext @ 46 # rev stem"
    by (rule dropWhile_id)
  have "takeWhile (\<lambda>c. c \<noteq> 47) (rev ext @ 46 # rev stem)
      = rev ext @ takeWhile (\<lambda>c. c \<noteq> 47) (46 # rev stem)"
    by (rule takeWhile_append2) (use assms(2) in auto)
  then have t: "takeWhile (\<lambda>c. c \<noteq> 47) (rev ext @ 46 # rev stem)
      = rev ext @ 46 # takeWhile (\<lambda>c. c \<noteq> 47) (rev stem)"
    by simp
  show ?thesis
    unfolding basename_of_def r d t by simp
qed

lemma extname_final:
  assumes "46 \<notin> set ext" and "47 \<notin> set ext"
  shows "extname (stem @ 46 # ext) = [] \<or> extname (stem @ 46 # ext) = 46 # ext"
proof -
  let ?pre = "rev (takeWhile (\<lambda>c. c \<noteq> 47) (rev stem))"
  have b: "basename_of (stem @ 46 # ext) = ?pre @ 46 # ext"
    using assms by (rule basename_final)
  have "takeWhile (\<lambda>c. c \<noteq> 46) (rev ext @ 46 # rev ?pre)
      = rev ext @ takeWhile (\<lambda>c. c \<noteq> 46) (46 # rev ?pre)"
    by (rule takeWhile_append2) (use assms(1) in auto)
  then have "takeWhile (\<lambda>c. c \<noteq> 46) (rev (?pre @ 46 # ext)) = rev ext"
    by simp
  then have e: "rev (takeWhile (\<lambda>c. c \<noteq> 46) (rev (?pre @ 46 # ext))) = ext"
    by simp
  show ?thesis
    unfolding extname_def b Let_def e by simp
qed

text \<open>
  The callback refuses every extension outside the allow-list, the empty one among them,
  and none of the twelve is in the allow-list.
\<close>

lemma storage_refuses:
  "toLowerCase u (extname (originalname f)) \<notin> set allowedExtensions \<Longrightarrow>
   storage_filename u safeFileName f = Inl FileTypeNotAllowed"
  by (simp add: storage_filename_def Let_def)

lemma denyList_not_allowed:
  assumes "e \<in> set spec_denyList"
  shows "e \<notin> set allowedExtensions \<and> 47 \<notin> set e"
proof -
  have "list_all (\<lambda>e. e \<notin> set allowedExtensions \<and> 47 \<notin> set e) spec_denyList"
    by (simp add: spec_denyList_def allowedExtensions_def js_def)
  with assms show ?thesis
    unfolding list_all_iff by blast
qed

lemma empty_not_allowed: "[] \<notin> set allowedExtensions"
  by (simp add: allowedExtensions_def js_def)

text \<open>
  C6, as amended. Every upload candidate whose name ends in a final extension that is,
  in lower case, one of the twelve of the specification is refused by the server: the
  callback that names the file to store answers with an error, whatever the rest of the
  name, the declared MIME type and the size. It does so because the extension is not in
  its allow-list, not because of a deny-list.
\<close>

theorem dangerous_extension_refused:
  assumes "originalname f = stem @ 46 # ext" and "46 \<notin> set ext"
    and "toLowerCase u (46 # ext) \<in> set spec_denyList"
  shows "storage_filename u safeFileName f = Inl FileTypeNotAllowed"
proof -
  from assms(3) have na: "toLowerCase u (46 # ext) \<notin> set allowedExtensions"
    and ns: "47 \<notin> set (toLowerCase u (46 # ext))"
    using denyList_not_allowed by blast+
  have "47 \<notin> set (46 # ext)"
  proof
    assume "47 \<in> set (46 # ext)"
    then have "47 \<in> set (toLowerCase u (46 # ext))"
      by (rule toLowerCase_keeps) (simp_all add: lowerUnit_def)
    with ns show False by simp
  qed
  then have "47 \<notin> set ext" by simp
  with assms(2) have "extname (stem @ 46 # ext) = [] \<or> extname (stem @ 46 # ext) = 46 # ext"
    by (rule extname_final)
  then have "toLowerCase u (extname (originalname f)) \<notin> set allowedExtensions"
    using na empty_not_allowed by (auto simp: assms(1) toLowerCase_Nil)
  then show ?thesis by (rule storage_refuses)
qed

theorem dangerous_extension_refused_witness:
  "storage_filename keepUnit (js ''5f2a'')
     \<lparr>originalname = js ''report.EXE'', mimetype = js ''text/plain'', file_size = 1,
      filename = []\<rparr> = Inl FileTypeNotAllowed \<and>
   storage_filename keepUnit (js ''5f2a'')
     \<lparr>originalname = js ''photo.jpg.Js'', mimetype = js ''image/jpeg'', file_size = 1,
      filename = []\<rparr> = Inl FileTypeNotAllowed \<and>
   storage_filename keepUnit (js ''5f2a'')
     \<lparr>originalname = js ''.pif'', mimetype = js ''text/plain'', file_size = 1,
      filename = []\<rparr> = Inl FileTypeNotAllowed"
proof -
  have 1: "storage_filename keepUnit (js ''5f2a'')
     \<lparr>originalname = js ''report.EXE'', mimetype = js ''text/plain'', file_size = 1,
      filename = []\<rparr> = Inl FileTypeNotAllowed"
    by (rule dangerous_extension_refused [of _ "js ''report''" "js ''EXE''"])
      (simp_all add: spec_denyList_def js_eval)
  have 2: "storage_filename keepUnit (js ''5f2a'')
     \<lparr>originalname = js ''photo.jpg.Js'', mimetype = js ''image/jpeg'', file_size = 1,
      filename = []\<rparr> = Inl FileTypeNotAllowed"
    by (rule dangerous_extension_refused [of _ "js ''photo.jpg''" "js ''Js''"])
      (simp_all add: spec_denyList_def js_eval)
  have 3: "storage_filename keepUnit (js ''5f2a'')
     \<lparr>originalname = js ''.pif'', mimetype = js ''text/plain'', file_size = 1,
      filename = []\<rparr> = Inl FileTypeNotAllowed"
    by (rule dangerous_extension_refused [of _ "[]" "js ''pif''"])
      (simp_all add: spec_denyList_def js_eval)
  from 1 2 3 show ?thesis by (intro conjI)
qed

text \<open>
  The claim as the specification has it fails: the checks it names do not use that
  list. \<^verbatim>\<open>validators.file.upload\<close> accepts \<^verbatim>\<open>a.js\<close> declared as \<^verbatim>\<open>text/plain\<close>, and
  \<^verbatim>\<open>detectSuspiciousFilePatterns\<close> does not flag \<^verbatim>\<open>a.pif\<close>, \<^verbatim>\<open>a.com\<close> or \<^verbatim>\<open>a.jar\<close>.
\<close>

theorem deny_lists_incomplete:
  "validators_file_upload keepUnit
     (Some \<lparr>originalname = js ''a.js'', mimetype = js ''text/plain'', file_size = 1,
            filename = js ''0a1b.txt''\<rparr>) = Valid \<and>
   detectSuspiciousFilePatterns (JStr (js ''a.pif'')) = False \<and>
   detectSuspiciousFilePatterns (JStr (js ''a.com'')) = False \<and>
   detectSuspiciousFilePatterns (JStr (js ''a.jar'')) = False"
  by (simp add: upload_eval matcher_eval js_eval rx_eval)

subsection \<open>The rejected upload\<close>

lemma validateFile_missing: "validators_file u ''validateFile'' = None"
  by (simp add: validators_file_def)

lemma uploadHandler_fails:
  "uploadHandler u (Some f) uploads = (UploadFailed 500, uploads)"
  by (simp add: uploadHandler_def callMember_def validateFile_missing)

text \<open>
  C7. The claim: when the validation after the write fails, the stored file is deleted
  before 400 is answered. The code: the handler calls \<^verbatim>\<open>validators.file.validateFile\<close>,
  which \<^verbatim>\<open>validators.file\<close> does not have (its validator is \<^verbatim>\<open>upload\<close>); the call throws,
  the outer \<^verbatim>\<open>catch\<close> answers 500, and the branch that unlinks the file is never
  reached. A stored file that the validator refuses (its name has a \<^verbatim>\<open>#\<close>) stays in
  the uploads directory.
\<close>

theorem rejected_upload_persists:
  "validators_file_upload u
     (Some \<lparr>originalname = js ''bad#name.txt'', mimetype = js ''text/plain'', file_size = 10,
            filename = js ''5f2a.txt''\<rparr>) = Invalid BadChars \<and>
   uploadHandler u
     (Some \<lparr>originalname = js ''bad#name.txt'', mimetype = js ''text/plain'', file_size = 10,
            filename = js ''5f2a.txt''\<rparr>) {js ''5f2a.txt''}
     = (UploadFailed 500, {js ''5f2a.txt''})"
  by (simp add: uploadHandler_def callMember_def validators_file_def upload_eval js_eval rx_eval)

theorem rejected_upload_persists_witness:
  "snd (uploadHandler keepUnit
     (Some \<lparr>originalname = js ''bad#name.txt'', mimetype = js ''text/plain'', file_size = 10,
            filename = js ''5f2a.txt''\<rparr>) {js ''5f2a.txt''}) = {js ''5f2a.txt''}"
  using rejected_upload_persists [of keepUnit] by simp

section \<open>Brute-force protection (server/index.js)\<close>

text \<open>
  \<^verbatim>\<open>bruteForceProtection\<close> is a \<^verbatim>\<open>Map\<close> from the key \<^verbatim>\<open>req.ip + ':' + req.path\<close> to a
  mutable record \<^verbatim>\<open>{ attempts, lastAttempt }\<close>. The table is passed explicitly; times are
  the milliseconds of \<^verbatim>\<open>Date.now()\<close>.
\<close>

record attempt_record =
  attempts :: nat
  lastAttempt :: int

type_synonym bf_table = "string \<rightharpoonup> attempt_record"

definition bf_key :: "string \<Rightarrow> string \<Rightarrow> string" where
  "bf_key ip path = ip @ '':'' @ path"

definition BRUTE_FORCE_WINDOW :: int where
  "BRUTE_FORCE_WINDOW = 15 * 60 * 1000"

definition MAX_ATTEMPTS :: nat where
  "MAX_ATTEMPTS = 5"

text \<open>What a middleware does with a request: hand it on (\<^verbatim>\<open>next()\<close>) or answer it.\<close>

datatype bf_reply =
    Next
  | TooManyAttempts (status: nat) (retryAfter: int)

text \<open>
  \<^verbatim>\<open>checkBruteForce\<close>: a missing record is created with no attempts, a record whose last
  attempt is older than the window has its counter reset (the timestamp stays), and a
  counter that has reached \<^verbatim>\<open>MAX_ATTEMPTS\<close> is answered with 429 and
  \<^verbatim>\<open>retryAfter = Math.ceil(BRUTE_FORCE_WINDOW / 1000)\<close>.
\<close>

definition ceilDiv :: "int \<Rightarrow> int \<Rightarrow> int" where
  "ceilDiv a b = - ((- a) div b)"

definition checkBruteForce :: "string \<Rightarrow> int \<Rightarrow> bf_table \<Rightarrow> bf_reply \<times> bf_table" where
  "checkBruteForce key now tbl =
     (let record = (case tbl key of
                      None \<Rightarrow> \<lparr>attempts = 0, lastAttempt = now\<rparr>
                    | Some r \<Rightarrow> r);
          record' = (if now - lastAttempt record > BRUTE_FORCE_WINDOW
                     then record\<lparr>attempts := 0\<rparr> else record);
          tbl' = tbl(key \<mapsto> record')
      in if attempts record' \<ge> MAX_ATTEMPTS
         then (TooManyAttempts 429 (ceilDiv BRUTE_FORCE_WINDOW 1000), tbl')
         else (Next, tbl'))"

text \<open>
  The failure branches of the login handler (user not found, wrong password):
  \<^verbatim>\<open>const record = bruteForceProtection.get(key);
  if (record) { record.attempts++; record.lastAttempt = Date.now(); }\<close>
\<close>

definition recordFailure :: "string \<Rightarrow> int \<Rightarrow> bf_table \<Rightarrow> bf_table" where
  "recordFailure key now tbl =
     (case tbl key of
        None \<Rightarrow> tbl
      | Some r \<Rightarrow> tbl(key \<mapsto> r\<lparr>attempts := attempts r + 1, lastAttempt := now\<rparr>))"

text \<open>Failures recorded one after the other, at the times of the list.\<close>

definition recordFailures :: "string \<Rightarrow> int list \<Rightarrow> bf_table \<Rightarrow> bf_table" where
  "recordFailures key ts tbl = fold (recordFailure key) ts tbl"

text \<open>
  The periodic sweep (\<^verbatim>\<open>setInterval\<close>, every 30 minutes) deletes the records whose last
  attempt is older than twice the window.
\<close>

definition sweep :: "int \<Rightarrow> bf_table \<Rightarrow> bf_table" where
  "sweep now tbl =
     (\<lambda>key. case tbl key of
              None \<Rightarrow> None
            | Some r \<Rightarrow> if now - lastAttempt r > BRUTE_FORCE_WINDOW * 2 then None else Some r)"

subsection \<open>Properties of the brute-force table\<close>

lemma checkBruteForce_has_record:
  "\<exists>r. snd (checkBruteForce key now tbl) key = Some r"
  by (simp add: checkBruteForce_def Let_def)

text \<open>
  A check that finds a record within its window and under the limit changes nothing, so
  the checks of the requests in between leave the count of the failures alone.
\<close>

lemma checkBruteForce_idle:
  assumes "tbl key = Some r" and "now - lastAttempt r \<le> BRUTE_FORCE_WINDOW"
    and "attempts r < MAX_ATTEMPTS"
  shows "checkBruteForce key now tbl = (Next, tbl)"
  using assms by (auto simp: checkBruteForce_def Let_def)

text \<open>A failure is recorded only where the check has left a record.\<close>

lemma recordFailure_without_record: "tbl key = None \<Longrightarrow> recordFailure key now tbl = tbl"
  by (simp add: recordFailure_def)

lemma recordFailures_Some:
  "tbl key = Some r \<Longrightarrow>
   recordFailures key ts tbl key =
     Some \<lparr>attempts = attempts r + length ts,
           lastAttempt = (if ts = [] then lastAttempt r else last ts)\<rparr>"
proof (induction ts arbitrary: tbl r)
  case Nil
  then show ?case by (simp add: recordFailures_def)
next
  case (Cons t ts)
  have step: "recordFailure key t tbl key = Some (r\<lparr>attempts := attempts r + 1, lastAttempt := t\<rparr>)"
    using Cons.prems by (simp add: recordFailure_def)
  have "recordFailures key (t # ts) tbl = recordFailures key ts (recordFailure key t tbl)"
    by (simp add: recordFailures_def)
  then show ?case
    using Cons.IH [of "recordFailure key t tbl" "r\<lparr>attempts := attempts r + 1, lastAttempt := t\<rparr>"] step
    by simp
qed

text \<open>
  C1. Whatever the table holds, once the check has run for a key (as it does at the head
  of the login route) and exactly \<^verbatim>\<open>MAX_ATTEMPTS\<close> failures have been recorded for it, a
  check that runs within the window of the last failure answers 429; a check that runs
  again, after the window has elapsed since the last failure, resets the counter to 0 and
  lets the request through.
\<close>

theorem bruteforce_lockout:
  fixes key :: string and ts :: "int list" and t0 now later :: int and tbl0 :: bf_table
  assumes len: "length ts = MAX_ATTEMPTS"
    and within: "now - last ts \<le> BRUTE_FORCE_WINDOW"
    and after: "later - last ts > BRUTE_FORCE_WINDOW"
  defines "tbl \<equiv> recordFailures key ts (snd (checkBruteForce key t0 tbl0))"
  shows "fst (checkBruteForce key now tbl) = TooManyAttempts 429 900 \<and>
         fst (checkBruteForce key later (snd (checkBruteForce key now tbl))) = Next \<and>
         snd (checkBruteForce key later (snd (checkBruteForce key now tbl))) key
           = Some \<lparr>attempts = 0, lastAttempt = last ts\<rparr>"
proof -
  obtain r where r: "snd (checkBruteForce key t0 tbl0) key = Some r"
    using checkBruteForce_has_record by blast
  have ne: "ts \<noteq> []"
    using len by (auto simp: MAX_ATTEMPTS_def)
  have rec: "tbl key = Some \<lparr>attempts = attempts r + 5, lastAttempt = last ts\<rparr>"
    unfolding tbl_def
    using recordFailures_Some [of "snd (checkBruteForce key t0 tbl0)" key r ts] r len ne
    by (simp add: MAX_ATTEMPTS_def)
  have deny: "checkBruteForce key now tbl = (TooManyAttempts 429 900, tbl)"
  proof -
    have "tbl(key \<mapsto> \<lparr>attempts = attempts r + 5, lastAttempt = last ts\<rparr>) = tbl"
      using rec by (rule map_upd_triv)
    with rec within show ?thesis
      by (simp add: checkBruteForce_def Let_def MAX_ATTEMPTS_def BRUTE_FORCE_WINDOW_def
          ceilDiv_def)
  qed
  have allow: "checkBruteForce key later tbl
      = (Next, tbl(key \<mapsto> \<lparr>attempts = 0, lastAttempt = last ts\<rparr>))"
    using rec after
    by (simp add: checkBruteForce_def Let_def MAX_ATTEMPTS_def BRUTE_FORCE_WINDOW_def)
  show ?thesis
    by (simp add: deny allow)
qed

theorem bruteforce_lockout_witness:
  "length [1000, 2000, 3000, 4000, 5000 :: int] = MAX_ATTEMPTS \<and>
   fst (checkBruteForce ''1.2.3.4:/api/auth/login'' 6000
          (recordFailures ''1.2.3.4:/api/auth/login'' [1000, 2000, 3000, 4000, 5000]
             (snd (checkBruteForce ''1.2.3.4:/api/auth/login'' 0 Map.empty))))
     = TooManyAttempts 429 900 \<and>
   fst (checkBruteForce ''1.2.3.4:/api/auth/login'' 905001
          (snd (checkBruteForce ''1.2.3.4:/api/auth/login'' 6000
             (recordFailures ''1.2.3.4:/api/auth/login'' [1000, 2000, 3000, 4000, 5000]
                (snd (checkBruteForce ''1.2.3.4:/api/auth/login'' 0 Map.empty))))))
     = Next"
proof -
  have len: "length [1000, 2000, 3000, 4000, 5000 :: int] = MAX_ATTEMPTS"
    by (simp add: MAX_ATTEMPTS_def)
  have within: "6000 - last [1000, 2000, 3000, 4000, 5000 :: int] \<le> BRUTE_FORCE_WINDOW"
    by (simp add: BRUTE_FORCE_WINDOW_def)
  have after: "905001 - last [1000, 2000, 3000, 4000, 5000 :: int] > BRUTE_FORCE_WINDOW"
    by (simp add: BRUTE_FORCE_WINDOW_def)
  from bruteforce_lockout [OF len within after, of "''1.2.3.4:/api/auth/login''" 0 Map.empty] len
  show ?thesis by simp
qed

section \<open>The general API rate limiter\<close>

subsection \<open>The limiter of \<^verbatim>\<open>express-rate-limit\<close>\<close>

text \<open>
  Modelled from the spec: the middleware that \<^verbatim>\<open>rateLimit(options)\<close> of the package
  \<^verbatim>\<open>express-rate-limit\<close> returns; the package is a dependency and not part of the
  repository. Section 4.4 of the specification: a fixed window per client identity,
  anchored to first use; a request over the hard cap is rejected with 429; an exempt
  request bypasses the limiter and is not counted. The store keeps, per client, the
  hits of the window and the time at which the window ends; a request at or after that
  time opens a new window.
\<close>

record rate_options =
  windowMs :: int
  max_hits :: nat
  skip :: "jsstring \<Rightarrow> bool"

record rate_client =
  totalHits :: nat
  resetTime :: int

type_synonym rate_store = "jsstring \<rightharpoonup> rate_client"

datatype rate_reply = Pass | TooManyRequests (status: nat)

definition increment :: "rate_options \<Rightarrow> jsstring \<Rightarrow> int \<Rightarrow> rate_store \<Rightarrow> rate_client" where
  "increment opts key now store =
     (case store key of
        None \<Rightarrow> \<lparr>totalHits = 1, resetTime = now + windowMs opts\<rparr>
      | Some c \<Rightarrow>
          if resetTime c \<le> now then \<lparr>totalHits = 1, resetTime = now + windowMs opts\<rparr>
          else c\<lparr>totalHits := totalHits c + 1\<rparr>)"

definition rateLimit :: "rate_options \<Rightarrow> jsstring \<Rightarrow> int \<Rightarrow> rate_store \<Rightarrow> rate_reply \<times> rate_store" where
  "rateLimit opts ip now store =
     (if skip opts ip then (Pass, store)
      else let c = increment opts ip now store;
               store' = store(ip \<mapsto> c)
           in if totalHits c > max_hits opts then (TooManyRequests 429, store')
              else (Pass, store'))"

text \<open>The end of the window in which a request at time \<open>now\<close> is counted.\<close>

definition windowEnd :: "rate_options \<Rightarrow> jsstring \<Rightarrow> int \<Rightarrow> rate_store \<Rightarrow> int" where
  "windowEnd opts key now store = resetTime (increment opts key now store)"

subsection \<open>\<^verbatim>\<open>securityConfig.apiRateLimit\<close> (server/security/security-middleware.js)\<close>

text \<open>
  The options of the repository: 15 minutes, 100 requests, and the \<^verbatim>\<open>skip\<close> function
  \<^verbatim>\<open>ip === '127.0.0.1' || ip === '::1' || ip.startsWith('192.168.') || ip.startsWith('10.')\<close>.
  \<^verbatim>\<open>app.use(securityConfig.apiRateLimit)\<close> puts the limiter in front of every route.
\<close>

definition isLocalAddress :: "jsstring \<Rightarrow> bool" where
  "isLocalAddress ip \<longleftrightarrow>
     ip = js ''127.0.0.1'' \<or> ip = js ''::1'' \<or> startsWith ip (js ''192.168.'')
     \<or> startsWith ip (js ''10.'')"

definition apiRateLimitOptions :: rate_options where
  "apiRateLimitOptions = \<lparr>windowMs = 15 * 60 * 1000, max_hits = 100, skip = isLocalAddress\<rparr>"

definition apiRateLimit :: "jsstring \<Rightarrow> int \<Rightarrow> rate_store \<Rightarrow> rate_reply \<times> rate_store" where
  "apiRateLimit = rateLimit apiRateLimitOptions"

text \<open>
  The server (server/index.js) mounts the limiter in front of every route
  (\<^verbatim>\<open>app.use(securityConfig.apiRateLimit)\<close>) and once more on four of them: \<^verbatim>\<open>/uploads\<close>,
  \<^verbatim>\<open>GET /api/users\<close>, \<^verbatim>\<open>GET /api/tasks\<close> and \<^verbatim>\<open>POST /api/upload\<close>. A request that gets
  as far as one of these routes meets the same limiter a second time and is counted
  twice; \<open>again\<close> says whether it does. A request that the limiter refuses goes no
  further.
\<close>

definition handle :: "jsstring \<Rightarrow> bool \<Rightarrow> int \<Rightarrow> rate_store \<Rightarrow> rate_reply \<times> rate_store" where
  "handle ip again now store =
     (case apiRateLimit ip now store of
        (Pass, store1) \<Rightarrow> if again then apiRateLimit ip now store1 else (Pass, store1)
      | (TooManyRequests n, store1) \<Rightarrow> (TooManyRequests n, store1))"

text \<open>
  The store after the requests of one client: each request has its time and whether it
  meets the limiter again.
\<close>

definition serve :: "jsstring \<Rightarrow> (int \<times> bool) list \<Rightarrow> rate_store \<Rightarrow> rate_store" where
  "serve ip requests store = fold (\<lambda>(t, again) s. snd (handle ip again t s)) requests store"

subsection \<open>The hundred-and-first request\<close>

lemma apiRateLimit_counts:
  assumes "\<not> isLocalAddress ip" and "store ip = Some c" and "now < resetTime c"
  shows "snd (apiRateLimit ip now store) ip = Some (c\<lparr>totalHits := totalHits c + 1\<rparr>)"
  using assms
  by (simp add: apiRateLimit_def rateLimit_def increment_def apiRateLimitOptions_def Let_def)

lemma handle_once: "handle ip False now store = apiRateLimit ip now store"
  by (simp add: handle_def split: prod.split rate_reply.split)

lemma handle_counts:
  assumes "\<not> isLocalAddress ip" and "store ip = Some c" and "now < resetTime c"
  shows "\<exists>c'. snd (handle ip again now store) ip = Some c'
           \<and> totalHits c + 1 \<le> totalHits c' \<and> resetTime c' = resetTime c"
proof -
  let ?c1 = "c\<lparr>totalHits := totalHits c + 1\<rparr>"
  obtain r s1 where a: "apiRateLimit ip now store = (r, s1)" by (cases "apiRateLimit ip now store")
  with apiRateLimit_counts [of ip store c now] assms have s1: "s1 ip = Some ?c1" by simp
  show ?thesis
  proof (cases "r = Pass \<and> again")
    case True
    have "now < resetTime ?c1" using assms(3) by simp
    with apiRateLimit_counts [of ip s1 ?c1 now] assms(1) s1
    have "snd (apiRateLimit ip now s1) ip = Some (?c1\<lparr>totalHits := totalHits ?c1 + 1\<rparr>)"
      by blast
    moreover from True a have "handle ip again now store = apiRateLimit ip now s1"
      by (simp add: handle_def)
    ultimately show ?thesis by simp
  next
    case False
    with a have "snd (handle ip again now store) = s1"
      by (cases r) (auto simp: handle_def)
    with s1 show ?thesis by simp
  qed
qed

lemma serve_counts:
  assumes "\<not> isLocalAddress ip"
  shows "store ip = Some c \<Longrightarrow> \<forall>t\<in>set (map fst requests). t < resetTime c \<Longrightarrow>
         \<exists>c'. serve ip requests store ip = Some c'
           \<and> totalHits c + length requests \<le> totalHits c' \<and> resetTime c' = resetTime c"
proof (induction requests arbitrary: store c)
  case Nil
  then show ?case by (simp add: serve_def)
next
  case (Cons q qs)
  obtain at again where q: "q = (at, again)" by (cases q)
  let ?s = "snd (handle ip again at store)"
  from Cons.prems q have "at < resetTime c" by simp
  with handle_counts [of ip store c at again] assms Cons.prems(1)
  obtain c1 where c1: "?s ip = Some c1" "totalHits c + 1 \<le> totalHits c1"
      "resetTime c1 = resetTime c"
    by blast
  from Cons.prems c1(3) have "\<forall>t\<in>set (map fst qs). t < resetTime c1" by simp
  with Cons.IH [of ?s c1] c1(1)
  obtain c' where c': "serve ip qs ?s ip = Some c'" "totalHits c1 + length qs \<le> totalHits c'"
      "resetTime c' = resetTime c1"
    by blast
  have "serve ip (q # qs) store = serve ip qs ?s" by (simp add: serve_def q)
  with c' c1 show ?case by simp
qed

lemma windowEnd_fresh:
  "store ip = None \<Longrightarrow> windowEnd apiRateLimitOptions ip t0 store = t0 + 15 * 60 * 1000"
  by (simp add: windowEnd_def increment_def apiRateLimitOptions_def)

lemma windowEnd_later: "t0 < windowEnd apiRateLimitOptions ip t0 store"
  by (simp add: windowEnd_def increment_def apiRateLimitOptions_def split: option.split)

lemma first_request_opens:
  assumes "\<not> isLocalAddress ip"
  shows "\<exists>c. snd (apiRateLimit ip t0 store) ip = Some c \<and> 1 \<le> totalHits c
           \<and> resetTime c = windowEnd apiRateLimitOptions ip t0 store"
  using assms
  by (simp add: apiRateLimit_def rateLimit_def increment_def windowEnd_def
      apiRateLimitOptions_def Let_def split: option.split)

lemma first_request_handled:
  assumes "\<not> isLocalAddress ip"
  shows "\<exists>c. snd (handle ip again t0 store) ip = Some c \<and> 1 \<le> totalHits c
           \<and> resetTime c = windowEnd apiRateLimitOptions ip t0 store"
proof -
  obtain r s1 where a: "apiRateLimit ip t0 store = (r, s1)" by (cases "apiRateLimit ip t0 store")
  with first_request_opens [OF assms, of t0 store]
  obtain c where c: "s1 ip = Some c" "1 \<le> totalHits c"
      "resetTime c = windowEnd apiRateLimitOptions ip t0 store"
    by auto
  show ?thesis
  proof (cases "r = Pass \<and> again")
    case True
    have "t0 < resetTime c" using c(3) windowEnd_later [of t0 ip store] by simp
    with apiRateLimit_counts [of ip s1 c t0] assms c(1)
    have "snd (apiRateLimit ip t0 s1) ip = Some (c\<lparr>totalHits := totalHits c + 1\<rparr>)"
      by blast
    moreover from True a have "handle ip again t0 store = apiRateLimit ip t0 s1"
      by (simp add: handle_def)
    ultimately show ?thesis using c by simp
  next
    case False
    with a have "snd (handle ip again t0 store) = s1"
      by (cases r) (auto simp: handle_def)
    with c show ?thesis by simp
  qed
qed

lemma over_the_cap:
  assumes "\<not> isLocalAddress ip" and "store ip = Some c" and "now < resetTime c"
    and "100 \<le> totalHits c"
  shows "fst (handle ip again now store) = TooManyRequests 429"
proof -
  from assms have "fst (apiRateLimit ip now store) = TooManyRequests 429"
    by (simp add: apiRateLimit_def rateLimit_def increment_def apiRateLimitOptions_def Let_def)
  then show ?thesis
    by (cases "apiRateLimit ip now store") (simp add: handle_def)
qed

text \<open>
  C8. A client that is not exempt sends a request at \<open>t0\<close>, ninety-nine more and another
  one at \<open>now\<close>, all before the window in which the first one is counted ends
  (15 minutes after \<open>t0\<close> when the first request opens the window, \<open>windowEnd_fresh\<close>);
  each request may or may not meet the limiter a second time on its route. The last
  request, the 101st of the window, is answered 429. A request from a local address
  (\<^verbatim>\<open>127.0.0.1\<close> is one) passes and leaves the store as it is: it is never counted.
\<close>

theorem api_rate_limit:
  "(\<not> isLocalAddress ip \<and> length requests = 99 \<and>
      (\<forall>t\<in>set (map fst requests @ [now]). t < windowEnd apiRateLimitOptions ip t0 store)
      \<longrightarrow> fst (handle ip again now (serve ip ((t0, again0) # requests) store))
            = TooManyRequests 429) \<and>
   (isLocalAddress ip \<longrightarrow> handle ip again now store = (Pass, store)) \<and>
   isLocalAddress (js ''127.0.0.1'')"
proof (intro conjI impI)
  assume h: "\<not> isLocalAddress ip \<and> length requests = 99 \<and>
      (\<forall>t\<in>set (map fst requests @ [now]). t < windowEnd apiRateLimitOptions ip t0 store)"
  then have nl: "\<not> isLocalAddress ip" and len: "length requests = 99" by simp_all
  from first_request_handled [OF nl, of again0 t0 store]
  obtain c where c: "snd (handle ip again0 t0 store) ip = Some c" "1 \<le> totalHits c"
      "resetTime c = windowEnd apiRateLimitOptions ip t0 store"
    by blast
  from h c(3) have within: "\<forall>t\<in>set (map fst requests). t < resetTime c"
    and last: "now < resetTime c"
    by simp_all
  have "serve ip ((t0, again0) # requests) store
      = serve ip requests (snd (handle ip again0 t0 store))"
    by (simp add: serve_def)
  with serve_counts [of ip "snd (handle ip again0 t0 store)" c requests] nl c(1) within
  obtain c' where c': "serve ip ((t0, again0) # requests) store ip = Some c'"
      "totalHits c + length requests \<le> totalHits c'" "resetTime c' = resetTime c"
    by auto
  from c'(2) c(2) len have "100 \<le> totalHits c'" by simp
  moreover from last c'(3) have "now < resetTime c'" by simp
  ultimately show "fst (handle ip again now (serve ip ((t0, again0) # requests) store))
      = TooManyRequests 429"
    using over_the_cap [of ip "serve ip ((t0, again0) # requests) store" c' now again] nl c'(1)
    by blast
next
  assume "isLocalAddress ip"
  then show "handle ip again now store = (Pass, store)"
    by (simp add: handle_def apiRateLimit_def rateLimit_def apiRateLimitOptions_def)
next
  show "isLocalAddress (js ''127.0.0.1'')"
    by (simp add: isLocalAddress_def)
qed

text \<open>
  On a route that mounts the limiter again the cap is reached sooner: after fifty
  requests that are counted twice, the fifty-first is refused.
\<close>

lemma handle_twice:
  assumes "\<not> isLocalAddress ip" and "store ip = Some c" and "now < resetTime c"
    and "totalHits c < 100"
  shows "snd (handle ip True now store) ip = Some (c\<lparr>totalHits := totalHits c + 2\<rparr>)"
  using assms
  by (simp add: handle_def apiRateLimit_def rateLimit_def increment_def apiRateLimitOptions_def
      Let_def)

lemma serve_twice:
  assumes "\<not> isLocalAddress ip"
  shows "store ip = Some c \<Longrightarrow> \<forall>q\<in>set qs. fst q < resetTime c \<and> snd q \<Longrightarrow>
         totalHits c + 2 * length qs \<le> 100 \<Longrightarrow>
         serve ip qs store ip = Some (c\<lparr>totalHits := totalHits c + 2 * length qs\<rparr>)"
proof (induction qs arbitrary: store c)
  case Nil
  then show ?case by (simp add: serve_def)
next
  case (Cons q qs)
  obtain at where q: "q = (at, True)" using Cons.prems(2) by (cases q) auto
  let ?s = "snd (handle ip True at store)"
  let ?c = "c\<lparr>totalHits := totalHits c + 2\<rparr>"
  from Cons.prems q have "at < resetTime c" and "totalHits c < 100" by simp_all
  with handle_twice [of ip store c at] assms Cons.prems(1) have step: "?s ip = Some ?c"
    by blast
  from Cons.prems have "\<forall>q\<in>set qs. fst q < resetTime ?c \<and> snd q"
    and "totalHits ?c + 2 * length qs \<le> 100"
    by simp_all
  with Cons.IH [of ?s ?c] step
  have "serve ip qs ?s ip = Some (?c\<lparr>totalHits := totalHits ?c + 2 * length qs\<rparr>)"
    by blast
  moreover have "serve ip (q # qs) store = serve ip qs ?s" by (simp add: serve_def q)
  ultimately show ?case by simp
qed

lemma counted_twice:
  "fst (handle (js ''203.0.113.7'') True 5000
          (serve (js ''203.0.113.7'') ((1000, True) # replicate 49 (2000, True)) Map.empty))
     = TooManyRequests 429"
proof -
  let ?ip = "js ''203.0.113.7''"
  let ?c = "\<lparr>totalHits = 2, resetTime = 901000\<rparr>"
  have nl: "\<not> isLocalAddress ?ip"
    by (simp add: isLocalAddress_def js_eval)
  have first: "snd (handle ?ip True 1000 Map.empty) ?ip = Some ?c"
    using nl
    by (simp add: handle_def apiRateLimit_def rateLimit_def increment_def
        apiRateLimitOptions_def Let_def)
  have "\<forall>q\<in>set (replicate 49 (2000 :: int, True)). fst q < resetTime ?c \<and> snd q"
    by simp
  moreover have "totalHits ?c + 2 * length (replicate 49 (2000 :: int, True)) \<le> 100"
    by simp
  ultimately have "serve ?ip (replicate 49 (2000, True)) (snd (handle ?ip True 1000 Map.empty)) ?ip
      = Some (?c\<lparr>totalHits := totalHits ?c + 2 * length (replicate 49 (2000 :: int, True))\<rparr>)"
    using serve_twice [of ?ip "snd (handle ?ip True 1000 Map.empty)" ?c
        "replicate 49 (2000, True)"] nl first
    by blast
  moreover have "serve ?ip ((1000, True) # replicate 49 (2000, True)) Map.empty
      = serve ?ip (replicate 49 (2000, True)) (snd (handle ?ip True 1000 Map.empty))"
    by (simp add: serve_def)
  ultimately have "serve ?ip ((1000, True) # replicate 49 (2000, True)) Map.empty ?ip
      = Some \<lparr>totalHits = 100, resetTime = 901000\<rparr>"
    by simp
  with over_the_cap [of ?ip "serve ?ip ((1000, True) # replicate 49 (2000, True)) Map.empty"
      "\<lparr>totalHits = 100, resetTime = 901000\<rparr>" 5000 True] nl
  show ?thesis by simp
qed

theorem api_rate_limit_witness:
  "fst (handle (js ''203.0.113.7'') False 5000
          (serve (js ''203.0.113.7'') ((1000, False) # replicate 99 (2000, True)) Map.empty))
     = TooManyRequests 429 \<and>
   handle (js ''127.0.0.1'') True 5000 Map.empty = (Pass, Map.empty)"
proof -
  have nl: "\<not> isLocalAddress (js ''203.0.113.7'')"
    by (simp add: isLocalAddress_def js_eval)
  have we: "windowEnd apiRateLimitOptions (js ''203.0.113.7'') 1000 Map.empty = 901000"
    by (simp add: windowEnd_def increment_def apiRateLimitOptions_def)
  have ts: "\<forall>t\<in>set (map fst (replicate 99 (2000, True)) @ [5000]). t < (901000 :: int)"
    by simp
  from api_rate_limit [of "js ''203.0.113.7''" "replicate 99 (2000, True)" 5000 1000
      Map.empty False False]
    api_rate_limit [of "js ''127.0.0.1''" "[]" 5000 0 Map.empty True False]
    nl we ts
  show ?thesis by simp
qed

section \<open>Tokens\<close>

subsection \<open>The package \<^verbatim>\<open>jsonwebtoken\<close>\<close>

text \<open>
  The claims that the login and registration handlers put into a token
  (\<^verbatim>\<open>{ id, userId, email, role }\<close>), and the payload that is signed: the claims with the
  fields that \<^verbatim>\<open>generateJWT\<close> and \<^verbatim>\<open>jwt.sign\<close> add. A claim that is missing and a claim
  that is the empty string are both falsy; both are the empty string here.
\<close>

record claims =
  claim_id :: jsstring
  userId :: jsstring
  email :: jsstring
  role :: jsstring

record jwt_payload = claims +
  iat :: int
  jti :: jsstring
  iss :: jsstring
  nbf :: "int option"
  exp :: "int option"

text \<open>
  Modelled from the spec: \<^verbatim>\<open>jwt.sign\<close> and \<^verbatim>\<open>jwt.verify\<close> of the package
  \<^verbatim>\<open>jsonwebtoken\<close>, a dependency that is not part of the repository and that the
  specification treats as an external primitive (sections 1 and 4.5). A token is kept
  symbolically, as the payload that was signed together with the algorithm and the key
  of the signature; every other string is garbage. A signature verifies under the key
  it was made with and under no other. Verification checks what the token invariant of
  section 3 lists, in its order: the token is well formed, the signature is valid (the
  algorithm is one of those accepted, the key is the secret), the expiry has not
  passed. As the package does, it looks at the claim \<^verbatim>\<open>nbf\<close> (not before) when the token
  has one, before it looks at \<^verbatim>\<open>exp\<close>. It fails with the error names that the
  repository's code tells apart, \<^verbatim>\<open>TokenExpiredError\<close> and \<^verbatim>\<open>JsonWebTokenError\<close>, or with
  another name.
\<close>

datatype jwt =
    Signed (alg: string) (key: jsstring) (payload: jwt_payload)
  | Garbage jsstring

datatype jwt_error_name = TokenExpiredError | JsonWebTokenError | NotBeforeError | Error

text \<open>
  Signing needs a secret (\<^verbatim>\<open>process.env.JWT_SECRET\<close> may be unset or empty) and, with the
  option \<^verbatim>\<open>expiresIn\<close> (in seconds), a payload that has no \<^verbatim>\<open>exp\<close> yet; it sets
  \<^verbatim>\<open>exp = iat + expiresIn\<close>.
\<close>

definition jwt_sign :: "jwt_payload \<Rightarrow> jsstring option \<Rightarrow> int \<Rightarrow> string \<Rightarrow> jwt_error_name + jwt" where
  "jwt_sign p secret expiresIn algorithm =
     (case secret of
        None \<Rightarrow> Inl Error
      | Some k \<Rightarrow>
          if k = [] then Inl Error
          else if exp p \<noteq> None then Inl Error
          else Inr (Signed algorithm k (p\<lparr>exp := Some (iat p + expiresIn)\<rparr>)))"

text \<open>Times are the milliseconds of \<^verbatim>\<open>Date.now()\<close>; the claims count seconds.\<close>

definition jwt_verify :: "jwt \<Rightarrow> jsstring option \<Rightarrow> string list \<Rightarrow> int \<Rightarrow> jwt_error_name + jwt_payload" where
  "jwt_verify token secret algorithms now =
     (case secret of
        None \<Rightarrow> Inl JsonWebTokenError
      | Some k \<Rightarrow>
          if k = [] then Inl JsonWebTokenError
          else (case token of
                  Garbage _ \<Rightarrow> Inl JsonWebTokenError
                | Signed a signing_key p \<Rightarrow>
                    if a \<notin> set algorithms then Inl JsonWebTokenError
                    else if signing_key \<noteq> k then Inl JsonWebTokenError
                    else if (case nbf p of None \<Rightarrow> False | Some n \<Rightarrow> n > now div 1000)
                      then Inl NotBeforeError
                    else (case exp p of
                            None \<Rightarrow> Inr p
                          | Some e \<Rightarrow> if now div 1000 \<ge> e then Inl TokenExpiredError else Inr p)))"

text \<open>The algorithms that \<^verbatim>\<open>jwt.verify\<close> accepts for a secret when none are named.\<close>

definition defaultAlgorithms :: "string list" where
  "defaultAlgorithms = [''HS256'', ''HS384'', ''HS512'']"

subsection \<open>\<^verbatim>\<open>cryptoUtils.generateJWT\<close> and \<^verbatim>\<open>cryptoUtils.verifyJWT\<close> (server/security/security-middleware.js)\<close>

text \<open>The messages of the errors that the two functions throw, by what they say.\<close>

datatype token_error = GenerationFailed | TokenExpired | InvalidToken | VerificationFailed

text \<open>
  \<^verbatim>\<open>generateJWT(payload, expiresIn = '24h')\<close>: the payload is spread first, then
  \<^verbatim>\<open>iat\<close>, a fresh \<^verbatim>\<open>jti\<close> (\<^verbatim>\<open>crypto.randomUUID()\<close>, a parameter here) and the issuer are
  set; the sum is signed under \<^verbatim>\<open>JWT_SECRET\<close> with HS256. Any error is rethrown as one.
\<close>

definition defaultExpiresIn :: int where
  "defaultExpiresIn = 24 * 60 * 60"

definition generateJWT :: "jsstring option \<Rightarrow> int \<Rightarrow> jsstring \<Rightarrow> claims \<Rightarrow> int \<Rightarrow> token_error + jwt" where
  "generateJWT secret now uuid claimed expiresIn =
     (let enhancedPayload = claims.extend claimed
            \<lparr>iat = now div 1000, jti = uuid, iss = js ''bureau-task-manager'',
             nbf = None, exp = None\<rparr>
      in case jwt_sign enhancedPayload secret expiresIn ''HS256'' of
           Inl error \<Rightarrow> Inl GenerationFailed
         | Inr token \<Rightarrow> Inr token)"

definition verifyJWT :: "jsstring option \<Rightarrow> int \<Rightarrow> jwt \<Rightarrow> token_error + jwt_payload" where
  "verifyJWT secret now token =
     (case jwt_verify token secret [''HS256''] now of
        Inr decoded \<Rightarrow> Inr decoded
      | Inl TokenExpiredError \<Rightarrow> Inl TokenExpired
      | Inl JsonWebTokenError \<Rightarrow> Inl InvalidToken
      | Inl NotBeforeError \<Rightarrow> Inl VerificationFailed
      | Inl Error \<Rightarrow> Inl VerificationFailed)"

subsection \<open>\<^verbatim>\<open>securityMiddleware.authenticateToken\<close> (server/security/security-middleware.js)\<close>

text \<open>
  The format test \<^verbatim>\<open>/^[A-Za-z0-9\-_]+\.[A-Za-z0-9\-_]+\.[A-Za-z0-9\-_]+$/\<close>. A signed token is
  three segments of base64url text, which the pattern accepts.
\<close>

definition isTokenChar :: "nat \<Rightarrow> bool" where
  "isTokenChar c \<longleftrightarrow>
     (65 \<le> c \<and> c \<le> 90) \<or> (97 \<le> c \<and> c \<le> 122) \<or> (48 \<le> c \<and> c \<le> 57) \<or> c = 45 \<or> c = 95"

definition tokenFormat :: regexp where
  "tokenFormat =
     Whole (Seq (plus (Chr isTokenChar)) (Seq (chr 46)
       (Seq (plus (Chr isTokenChar)) (Seq (chr 46) (plus (Chr isTokenChar))))))"

fun tokenFormatOk :: "jwt \<Rightarrow> bool" where
  "tokenFormatOk (Signed a k p) = True"
| "tokenFormatOk (Garbage s) = fst (RegExp_test (literal tokenFormat False) s)"

text \<open>The answers of the middleware: the request goes on with the user, or a status and a message.\<close>

datatype auth_message =
    TokenMissing
  | BadTokenFormat
  | TokenExpiredMessage
  | TokenInvalidMessage
  | TokenCheckFailed
  | BadTokenPayload

datatype auth_reply =
    Authenticated jwt_payload
  | Denied (status: nat) auth_message

definition authenticateToken :: "jsstring option \<Rightarrow> int \<Rightarrow> jwt option \<Rightarrow> auth_reply" where
  "authenticateToken secret now bearer =
     (case bearer of
        None \<Rightarrow> Denied 401 TokenMissing
      | Some token \<Rightarrow>
          if \<not> tokenFormatOk token then Denied 401 BadTokenFormat
          else (case jwt_verify token secret defaultAlgorithms now of
                  Inl TokenExpiredError \<Rightarrow> Denied 401 TokenExpiredMessage
                | Inl JsonWebTokenError \<Rightarrow> Denied 401 TokenInvalidMessage
                | Inl NotBeforeError \<Rightarrow> Denied 403 TokenCheckFailed
                | Inl Error \<Rightarrow> Denied 403 TokenCheckFailed
                | Inr user \<Rightarrow>
                    if claim_id user = [] \<or> email user = [] then Denied 401 BadTokenPayload
                    else Authenticated user))"

subsection \<open>Round trip\<close>

text \<open>
  C2. With a secret configured, \<^verbatim>\<open>generateJWT\<close> issues a token for every claims payload,
  and \<^verbatim>\<open>verifyJWT\<close> at any time before the 24 hours are over (the time of issue among
  them) succeeds and returns the subject id and the role of the payload unchanged.
\<close>

theorem token_round_trip:
  assumes "secret = Some k" and "k \<noteq> []"
    and "now' div 1000 < now div 1000 + defaultExpiresIn"
  shows "\<exists>token user.
           generateJWT secret now uuid claimed defaultExpiresIn = Inr token \<and>
           verifyJWT secret now' token = Inr user \<and>
           claim_id user = claim_id claimed \<and> role user = role claimed"
  using assms
  by (simp add: generateJWT_def verifyJWT_def jwt_sign_def jwt_verify_def Let_def claims.defs)

theorem token_round_trip_witness:
  "\<exists>token user.
     generateJWT (Some (js ''s3cret'')) 1700000000000 (js ''uuid-1'')
       \<lparr>claim_id = js ''42'', userId = js ''42'', email = js ''a@b.c'', role = js ''ADMIN''\<rparr>
       defaultExpiresIn = Inr token \<and>
     verifyJWT (Some (js ''s3cret'')) 1700000000000 token = Inr user \<and>
     claim_id user = js ''42'' \<and> role user = js ''ADMIN''"
proof -
  have k: "js ''s3cret'' \<noteq> []" by (simp add: js_def)
  have t: "(1700000000000 :: int) div 1000 < 1700000000000 div 1000 + defaultExpiresIn"
    by (simp add: defaultExpiresIn_def)
  from token_round_trip [OF refl k t, of "js ''uuid-1''"
      "\<lparr>claim_id = js ''42'', userId = js ''42'', email = js ''a@b.c'', role = js ''ADMIN''\<rparr>"]
  show ?thesis by simp
qed

subsection \<open>Expired tokens\<close>

text \<open>
  A token that is marked as not valid yet: it has a claim \<^verbatim>\<open>nbf\<close> that lies in the future.
  The tokens that \<^verbatim>\<open>generateJWT\<close> issues have none.
\<close>

definition notYetValid :: "jwt_payload \<Rightarrow> int \<Rightarrow> bool" where
  "notYetValid p now \<longleftrightarrow> (case nbf p of None \<Rightarrow> False | Some n \<Rightarrow> n > now div 1000)"

text \<open>
  C3, as amended. Take any signed token whose expiry has passed, whatever its algorithm
  \<open>a\<close> and the key \<open>k'\<close> of its signature. \<^verbatim>\<open>verifyJWT\<close> accepts HS256 only: it fails with
  the expiry error when the token is signed with the secret under HS256 (and is not
  marked as not valid yet), and as an invalid token when the key or the algorithm is
  another. \<^verbatim>\<open>authenticateToken\<close> names no algorithm, so HS256, HS384 and HS512 are
  accepted: it answers 401 with the expiry message when the token is signed with the
  secret under one of the three, and 401 with the message of an invalid token when the
  key or the algorithm is another. A token with an accepted signature that is marked
  as not valid yet fails with the error of neither kind (403 from the middleware).
\<close>

theorem expired_token_rejected:
  assumes "secret = Some k" and "k \<noteq> []" and "exp p = Some e" and "e \<le> now div 1000"
  shows "verifyJWT secret now (Signed a k' p)
           = Inl (if a \<noteq> ''HS256'' \<or> k' \<noteq> k then InvalidToken
                  else if notYetValid p now then VerificationFailed
                  else TokenExpired) \<and>
         authenticateToken secret now (Some (Signed a k' p))
           = (if a \<notin> set defaultAlgorithms \<or> k' \<noteq> k then Denied 401 TokenInvalidMessage
              else if notYetValid p now then Denied 403 TokenCheckFailed
              else Denied 401 TokenExpiredMessage)"
  using assms
  by (simp add: verifyJWT_def authenticateToken_def jwt_verify_def notYetValid_def)

theorem expired_token_rejected_witness:
  "verifyJWT (Some (js ''s3cret'')) 1700000000000
     (Signed ''HS256'' (js ''s3cret'')
        \<lparr>claim_id = js ''42'', userId = js ''42'', email = js ''a@b.c'', role = js ''USER'',
         iat = 1600000000, jti = js ''uuid-1'', iss = js ''bureau-task-manager'',
         nbf = None, exp = Some 1600086400\<rparr>) = Inl TokenExpired \<and>
   authenticateToken (Some (js ''s3cret'')) 1700000000000
     (Some (Signed ''HS256'' (js ''s3cret'')
        \<lparr>claim_id = js ''42'', userId = js ''42'', email = js ''a@b.c'', role = js ''USER'',
         iat = 1600000000, jti = js ''uuid-1'', iss = js ''bureau-task-manager'',
         nbf = None, exp = Some 1600086400\<rparr>)) = Denied 401 TokenExpiredMessage \<and>
   verifyJWT (Some (js ''s3cret'')) 1700000000000
     (Signed ''HS384'' (js ''s3cret'')
        \<lparr>claim_id = js ''42'', userId = js ''42'', email = js ''a@b.c'', role = js ''USER'',
         iat = 1600000000, jti = js ''uuid-1'', iss = js ''bureau-task-manager'',
         nbf = None, exp = Some 1600086400\<rparr>) = Inl InvalidToken \<and>
   authenticateToken (Some (js ''s3cret'')) 1700000000000
     (Some (Signed ''HS384'' (js ''s3cret'')
        \<lparr>claim_id = js ''42'', userId = js ''42'', email = js ''a@b.c'', role = js ''USER'',
         iat = 1600000000, jti = js ''uuid-1'', iss = js ''bureau-task-manager'',
         nbf = None, exp = Some 1600086400\<rparr>)) = Denied 401 TokenExpiredMessage"
proof -
  let ?p = "\<lparr>claim_id = js ''42'', userId = js ''42'', email = js ''a@b.c'', role = js ''USER'',
         iat = 1600000000, jti = js ''uuid-1'', iss = js ''bureau-task-manager'',
         nbf = None, exp = Some 1600086400\<rparr>"
  have k: "js ''s3cret'' \<noteq> []" by (simp add: js_def)
  have x: "exp ?p = Some 1600086400" by simp
  have e: "(1600086400 :: int) \<le> 1700000000000 div 1000" by simp
  have n: "\<not> notYetValid ?p 1700000000000" by (simp add: notYetValid_def)
  from expired_token_rejected [OF refl k x e, of "''HS256''" "js ''s3cret''"]
    expired_token_rejected [OF refl k x e, of "''HS384''" "js ''s3cret''"] n
  show ?thesis by (simp add: defaultAlgorithms_def)
qed

text \<open>
  The claim as stated fails for a token whose expiry has passed and whose signature was
  made with another key: the signature is checked first, and the failure is the one of
  an invalid token.
\<close>

theorem expired_forged_token_invalid:
  "verifyJWT (Some (js ''s3cret'')) 1700000000000
     (Signed ''HS256'' (js ''not-the-secret'')
        \<lparr>claim_id = js ''42'', userId = js ''42'', email = js ''a@b.c'', role = js ''ADMIN'',
         iat = 1600000000, jti = js ''uuid-1'', iss = js ''bureau-task-manager'',
         nbf = None, exp = Some 1600086400\<rparr>) = Inl InvalidToken"
  by (simp add: verifyJWT_def jwt_verify_def js_def)

end
